theory Spec2Isabelle
  imports Main
begin

section \<open>LinkValidator: a shallow embedding of LinkValidator.py\<close>

text \<open>
  The script reads one column of a spreadsheet, rewrites the links in it
  (\<open>update_links_to_https\<close>, \<open>remove_igshid_parameter\<close>), probes every link over HTTP
  (\<open>check_link_status\<close>, called through \<open>process_link\<close> from a thread pool) and counts
  the outcomes.

  Python strings are modelled as \<open>string\<close>, the UTF-8 bytes of the text. Every pattern
  the program searches for is ASCII, so searching and cutting bytes is searching and
  cutting code points.
\<close>

subsection \<open>Python string operations\<close>

definition startswith :: "string \<Rightarrow> string \<Rightarrow> bool" where
  \<comment> \<open>\<open>s.startswith(p)\<close>\<close>
  "startswith s p = (take (length p) s = p)"

function replace_from :: "string \<Rightarrow> string \<Rightarrow> string \<Rightarrow> string" where
  \<comment> \<open>the scan of \<open>str.replace\<close> for a non-empty pattern: left to right, no overlap\<close>
  "replace_from old new [] = []"
| "replace_from old new (c # cs) =
     (if old \<noteq> [] \<and> startswith (c # cs) old
      then new @ replace_from old new (drop (length old) (c # cs))
      else c # replace_from old new cs)"
  by pat_completeness auto
termination
  by (relation "measure (\<lambda>(old, new, s). length s)") auto

definition replace :: "string \<Rightarrow> string \<Rightarrow> string \<Rightarrow> string" where
  \<comment> \<open>\<open>s.replace(old, new)\<close>: every occurrence; an empty pattern matches between
      any two characters and at both ends\<close>
  "replace s old new =
     (if old = [] then new @ concat (map (\<lambda>c. c # new) s) else replace_from old new s)"

subsection \<open>The dataset column\<close>

text \<open>
  A cell of the column is a string or is empty (pandas reads an empty cell as NaN, which
  is not a \<open>str\<close>). Rows are labelled \<open>0, 1, ...\<close> in order, as in a frame loaded from a
  file, so the column is a list and a row label is a position in it.
\<close>

datatype cell = Str string | NaN

subsection \<open>update_links_to_https\<close>

definition https_link :: "string \<Rightarrow> string" where
  \<comment> \<open>what one string cell holds after the loop body of \<open>update_links_to_https\<close>: the two
      \<open>if\<close>s both test the cell as it was read, and the second writes last\<close>
  "https_link link =
     (let cell1 = (if startswith link ''//'' then ''https:'' @ link else link);
          cell2 = (if startswith link ''http://'' then replace link ''http://'' ''https://''
                   else cell1)
      in cell2)"

definition https_count :: "string \<Rightarrow> nat" where
  \<comment> \<open>what the loop body adds to \<open>counter\<close>\<close>
  "https_count link =
     (if startswith link ''//'' then 1 else 0) + (if startswith link ''http://'' then 1 else 0)"

fun update_links_to_https :: "cell list \<Rightarrow> cell list \<times> nat" where
  \<comment> \<open>the column after the pass, and \<open>counter\<close>\<close>
  "update_links_to_https [] = ([], 0)"
| "update_links_to_https (NaN # rows) =
     (let (rows', n) = update_links_to_https rows in (NaN # rows', n))"
| "update_links_to_https (Str link # rows) =
     (let (rows', n) = update_links_to_https rows
      in (Str (https_link link) # rows', https_count link + n))"

subsection \<open>urllib.parse\<close>

text \<open>
  The program calls \<open>urlparse\<close>, \<open>urlunparse\<close>, \<open>parse_qs\<close> and \<open>urlencode\<close> of Python's
  standard library. They are modelled here from the library's source (CPython 3.11,
  \<open>Lib/urllib/parse.py\<close>), function by function and under the library's names, for
  \<open>str\<close> arguments and the default keyword arguments, which is how the program calls them.

  Two checks of the library are not modelled and are parameters of the model instead
  (fields of \<open>env\<close> below): \<open>_check_bracketed_host\<close>, which parses an IPv6 literal, and
  the NFKC screen of \<open>_checknetloc\<close>, which needs the Unicode tables. The first is
  consulted only for a network location with both brackets, the second only for one
  with a non-ASCII character.

  A string is its UTF-8 bytes throughout, so \<open>quote\<close> escapes the bytes of the model's
  string, and \<open>unquote\<close>, which decodes the unescaped bytes as UTF-8 with U+FFFD in
  place of what is ill-formed, gives the UTF-8 bytes of the decoded text.
\<close>

datatype exn =
    ValueError    \<comment> \<open>raised by \<open>urlsplit\<close>\<close>
  | IndexError    \<comment> \<open>raised by \<open>[0]\<close> on an empty list\<close>
  | OtherError    \<comment> \<open>any other exception that is not a \<open>RequestException\<close>\<close>

datatype response =
    Status int          \<comment> \<open>\<open>requests.get\<close> returned a response with this status code\<close>
  | RequestException    \<comment> \<open>\<open>requests.get\<close> raised a \<open>RequestException\<close>\<close>
  | OtherException      \<comment> \<open>\<open>requests.get\<close> raised something else\<close>

record env =
  bracketed_host_ok :: "string \<Rightarrow> bool"
    \<comment> \<open>\<open>_check_bracketed_host(hostname)\<close> returns without raising\<close>
  nfkc_ok :: "string \<Rightarrow> bool"
    \<comment> \<open>the NFKC screen of \<open>_checknetloc(netloc)\<close> does not raise\<close>
  respond :: "nat \<Rightarrow> string \<Rightarrow> response"
    \<comment> \<open>the network: what the \<open>n\<close>-th request of the run meets when it goes to a URL\<close>

definition lowercase_letters :: string where
  "lowercase_letters = ''abcdefghijklmnopqrstuvwxyz''"

definition uppercase_letters :: string where
  "uppercase_letters = ''ABCDEFGHIJKLMNOPQRSTUVWXYZ''"

definition scheme_chars :: string where
  "scheme_chars = lowercase_letters @ uppercase_letters @ ''0123456789'' @ ''+-.''"

definition ascii_alpha :: "char \<Rightarrow> bool" where
  \<comment> \<open>\<open>c.isascii() and c.isalpha()\<close>\<close>
  "ascii_alpha c = (c \<in> set (lowercase_letters @ uppercase_letters))"

definition lower :: "char \<Rightarrow> char" where
  \<comment> \<open>\<open>str.lower\<close> on one ASCII character\<close>
  "lower c = (case map_of (zip uppercase_letters lowercase_letters) c of
                Some d \<Rightarrow> d | None \<Rightarrow> c)"

definition is_ascii :: "char \<Rightarrow> bool" where
  "is_ascii c = ((of_char c :: nat) < 128)"

definition c0_control_or_space :: "char \<Rightarrow> bool" where
  \<comment> \<open>membership in \<open>_WHATWG_C0_CONTROL_OR_SPACE\<close>: the codes 0 to 32\<close>
  "c0_control_or_space c = ((of_char c :: nat) \<le> 32)"

definition unsafe_url_bytes :: string where
  \<comment> \<open>\<open>_UNSAFE_URL_BYTES_TO_REMOVE\<close>: tab, carriage return, line feed\<close>
  "unsafe_url_bytes = [char_of (9::nat), char_of (13::nat), char_of (10::nat)]"

definition uses_netloc :: "string list" where
  "uses_netloc = ['''', ''ftp'', ''http'', ''gopher'', ''nntp'', ''telnet'',
     ''imap'', ''wais'', ''file'', ''mms'', ''https'', ''shttp'',
     ''snews'', ''prospero'', ''rtsp'', ''rtsps'', ''rtspu'', ''rsync'',
     ''svn'', ''svn+ssh'', ''sftp'', ''nfs'', ''git'', ''git+ssh'',
     ''ws'', ''wss'']"

definition uses_params :: "string list" where
  "uses_params = ['''', ''ftp'', ''hdl'', ''prospero'', ''http'', ''imap'',
     ''https'', ''shttp'', ''rtsp'', ''rtsps'', ''rtspu'', ''sip'',
     ''sips'', ''mms'', ''sftp'', ''tel'']"

definition split_once :: "char \<Rightarrow> string \<Rightarrow> string \<times> string" where
  \<comment> \<open>\<open>a, b = s.split(c, 1)\<close> for a string that contains \<open>c\<close>\<close>
  "split_once c s = (takeWhile (\<lambda>x. x \<noteq> c) s, drop 1 (dropWhile (\<lambda>x. x \<noteq> c) s))"

definition split_scheme :: "string \<Rightarrow> string \<times> string" where
  \<comment> \<open>the scheme step of \<open>urlsplit\<close>: \<open>i = url.find(':')\<close>, and when \<open>i > 0\<close>, \<open>url[0]\<close> is
      an ASCII letter and \<open>url[:i]\<close> has scheme characters only, the scheme is
      \<open>url[:i].lower()\<close> and the rest is \<open>url[i+1:]\<close>\<close>
  "split_scheme url =
     (let pre = takeWhile (\<lambda>c. c \<noteq> CHR '':'') url
      in if CHR '':'' \<in> set url \<and> pre \<noteq> [] \<and> ascii_alpha (hd pre)
            \<and> list_all (\<lambda>c. c \<in> set scheme_chars) pre
         then (map lower pre, drop (Suc (length pre)) url)
         else ('''', url))"

definition netloc_delim :: "char \<Rightarrow> bool" where
  "netloc_delim c = (c \<in> set ''/?#'')"

definition splitnetloc :: "string \<Rightarrow> string \<times> string" where
  \<comment> \<open>\<open>_splitnetloc(url, 2)\<close>: up to the first of \<open>/ ? #\<close> after the two slashes\<close>
  "splitnetloc url =
     (takeWhile (\<lambda>c. \<not> netloc_delim c) (drop 2 url),
      dropWhile (\<lambda>c. \<not> netloc_delim c) (drop 2 url))"

definition bracketed_host :: "string \<Rightarrow> string" where
  \<comment> \<open>\<open>netloc.partition('[')[2].partition(']')[0]\<close>\<close>
  "bracketed_host netloc =
     takeWhile (\<lambda>c. c \<noteq> CHR '']'') (drop 1 (dropWhile (\<lambda>c. c \<noteq> CHR ''['') netloc))"

definition brackets_ok :: "env \<Rightarrow> string \<Rightarrow> bool" where
  \<comment> \<open>the two bracket checks of \<open>urlsplit\<close> pass (neither raises \<open>ValueError\<close>)\<close>
  "brackets_ok E netloc =
     (let lb = CHR ''['' \<in> set netloc; rb = CHR '']'' \<in> set netloc
      in if (lb \<and> \<not> rb) \<or> (rb \<and> \<not> lb) then False
         else if lb \<and> rb then bracketed_host_ok E (bracketed_host netloc)
         else True)"

definition checknetloc :: "env \<Rightarrow> string \<Rightarrow> bool" where
  \<comment> \<open>\<open>_checknetloc(netloc)\<close> returns without raising\<close>
  "checknetloc E netloc = (netloc = [] \<or> list_all is_ascii netloc \<or> nfkc_ok E netloc)"

definition urlsplit ::
  "env \<Rightarrow> string \<Rightarrow> exn + (string \<times> string \<times> string \<times> string \<times> string)" where
  \<comment> \<open>\<open>(scheme, netloc, path, query, fragment)\<close>, or \<open>ValueError\<close>\<close>
  "urlsplit E url =
     (let url1 = dropWhile c0_control_or_space url;
          url2 = filter (\<lambda>c. c \<notin> set unsafe_url_bytes) url1;
          (scheme, url3) = split_scheme url2;
          has_netloc = (take 2 url3 = ''//'');
          (netloc, url4) = (if has_netloc then splitnetloc url3 else ('''', url3));
          (url5, fragment) = (if CHR ''#'' \<in> set url4 then split_once (CHR ''#'') url4
                              else (url4, ''''));
          (url6, query) = (if CHR ''?'' \<in> set url5 then split_once (CHR ''?'') url5
                           else (url5, ''''))
      in if has_netloc \<and> \<not> brackets_ok E netloc then Inl ValueError
         else if \<not> checknetloc E netloc then Inl ValueError
         else Inr (scheme, netloc, url6, query, fragment))"

record ParseResult =
  scheme :: string
  netloc :: string
  path :: string
  params :: string
  query :: string
  fragment :: string

definition splitparams :: "string \<Rightarrow> string \<times> string" where
  \<comment> \<open>\<open>_splitparams(url)\<close> for a path that contains \<open>;\<close>: the search for \<open>;\<close> starts at
      the last \<open>/\<close>\<close>
  "splitparams url =
     (if CHR ''/'' \<in> set url
      then (let last_seg = rev (takeWhile (\<lambda>c. c \<noteq> CHR ''/'') (rev url));
                front = take (length url - length last_seg) url
            in if CHR '';'' \<in> set last_seg
               then (front @ fst (split_once (CHR '';'') last_seg),
                     snd (split_once (CHR '';'') last_seg))
               else (url, ''''))
      else split_once (CHR '';'') url)"

definition urlparse :: "env \<Rightarrow> string \<Rightarrow> exn + ParseResult" where
  "urlparse E url =
     (case urlsplit E url of
        Inl e \<Rightarrow> Inl e
      | Inr (sch, loc, url, qry, frag) \<Rightarrow>
          (let (url, prm) = (if sch \<in> set uses_params \<and> CHR '';'' \<in> set url
                                then splitparams url else (url, ''''))
           in Inr \<lparr>scheme = sch, netloc = loc, path = url, params = prm,
                   query = qry, fragment = frag\<rparr>))"

definition urlunsplit :: "string \<times> string \<times> string \<times> string \<times> string \<Rightarrow> string" where
  "urlunsplit components =
     (let (sch, loc, url, qry, frag) = components;
          url = (if loc \<noteq> [] \<or> (sch \<noteq> [] \<and> sch \<in> set uses_netloc)
                    \<or> take 2 url = ''//''
                 then ''//'' @ loc @ (if url \<noteq> [] \<and> take 1 url \<noteq> ''/'' then ''/'' @ url
                                           else url)
                 else url);
          url = (if sch \<noteq> [] then sch @ '':'' @ url else url);
          url = (if qry \<noteq> [] then url @ ''?'' @ qry else url);
          url = (if frag \<noteq> [] then url @ ''#'' @ frag else url)
      in url)"

definition urlunparse :: "ParseResult \<Rightarrow> string" where
  "urlunparse p =
     urlunsplit (scheme p, netloc p,
                 (if params p \<noteq> [] then path p @ '';'' @ params p else path p),
                 query p, fragment p)"

definition hexdig_upper :: string where
  "hexdig_upper = ''0123456789ABCDEF''"

definition hexdig_lower :: string where
  "hexdig_lower = ''0123456789abcdef''"

fun index_of :: "'a \<Rightarrow> 'a list \<Rightarrow> nat option" where
  \<comment> \<open>the position of the first occurrence\<close>
  "index_of x [] = None"
| "index_of x (y # ys) =
     (if x = y then Some 0 else map_option Suc (index_of x ys))"

definition hexval :: "char \<Rightarrow> nat option" where
  \<comment> \<open>the value of a hexadecimal digit of either case (\<open>_hexdig\<close>), None for another
      character\<close>
  "hexval c = (case index_of c hexdig_upper of
                 Some n \<Rightarrow> Some n
               | None \<Rightarrow> index_of c hexdig_lower)"

fun unquote_to_bytes :: "string \<Rightarrow> string" where
  \<comment> \<open>\<open>%\<close> and two hexadecimal digits become the byte; any other \<open>%\<close> stays\<close>
  "unquote_to_bytes (c # a # b # rest) =
     (if c = CHR ''%'' then
        (case (hexval a, hexval b) of
           (Some h, Some l) \<Rightarrow> char_of (16 * h + l) # unquote_to_bytes rest
         | _ \<Rightarrow> c # unquote_to_bytes (a # b # rest))
      else c # unquote_to_bytes (a # b # rest))"
| "unquote_to_bytes (c # cs) = c # unquote_to_bytes cs"
| "unquote_to_bytes [] = []"

definition replacement_character :: string where
  \<comment> \<open>U+FFFD in UTF-8\<close>
  "replacement_character = [char_of (239::nat), char_of (191::nat), char_of (189::nat)]"

definition continuation_byte :: "char \<Rightarrow> bool" where
  \<comment> \<open>the bytes 0x80 to 0xBF\<close>
  "continuation_byte c = (128 \<le> (of_char c :: nat) \<and> (of_char c :: nat) < 192)"

fun decode_replace :: "string \<Rightarrow> string" where
  \<comment> \<open>\<open>bs.decode('utf-8', 'replace')\<close>, the result again as UTF-8 bytes: a well-formed
      sequence stays; an invalid start byte, a lead byte with the continuation bytes that
      fit it before one that does not, and a sequence cut off by the end of the data,
      each become one U+FFFD\<close>
  "decode_replace [] = []"
| "decode_replace (c # cs) =
     (let ch = (of_char c :: nat) in
      if ch < 128 then c # decode_replace cs
      else if ch < 194 then replacement_character @ decode_replace cs
      else if ch < 224 then
        (case cs of
           [] \<Rightarrow> replacement_character
         | c2 # cs2 \<Rightarrow>
             if continuation_byte c2 then c # c2 # decode_replace cs2
             else replacement_character @ decode_replace cs)
      else if ch < 240 then
        (case cs of
           [] \<Rightarrow> replacement_character
         | c2 # cs2 \<Rightarrow>
             if \<not> continuation_byte c2
                \<or> (if (of_char c2 :: nat) < 160 then ch = 224 else ch = 237)
             then replacement_character @ decode_replace cs
             else
               (case cs2 of
                  [] \<Rightarrow> replacement_character
                | c3 # cs3 \<Rightarrow>
                    if continuation_byte c3 then c # c2 # c3 # decode_replace cs3
                    else replacement_character @ decode_replace cs2))
      else if ch < 245 then
        (case cs of
           [] \<Rightarrow> replacement_character
         | c2 # cs2 \<Rightarrow>
             if \<not> continuation_byte c2
                \<or> (if (of_char c2 :: nat) < 144 then ch = 240 else ch = 244)
             then replacement_character @ decode_replace cs
             else
               (case cs2 of
                  [] \<Rightarrow> replacement_character
                | c3 # cs3 \<Rightarrow>
                    if \<not> continuation_byte c3 then replacement_character @ decode_replace cs2
                    else
                      (case cs3 of
                         [] \<Rightarrow> replacement_character
                       | c4 # cs4 \<Rightarrow>
                           if continuation_byte c4 then c # c2 # c3 # c4 # decode_replace cs4
                           else replacement_character @ decode_replace cs3)))
      else replacement_character @ decode_replace cs)"

function unquote_parts :: "string \<Rightarrow> string" where
  \<comment> \<open>the loop of \<open>unquote\<close> over \<open>_asciire.split(string)\<close>: every maximal run of ASCII
      characters is unquoted to bytes and decoded, what lies between stays\<close>
  "unquote_parts s =
     (if s = [] then []
      else if is_ascii (hd s) then
        decode_replace (unquote_to_bytes (takeWhile is_ascii s))
        @ unquote_parts (dropWhile is_ascii s)
      else
        takeWhile (\<lambda>c. \<not> is_ascii c) s @ unquote_parts (dropWhile (\<lambda>c. \<not> is_ascii c) s))"
  by pat_completeness auto
termination
proof (relation "measure length")
  show "wf (measure length)" by simp
next
  fix s :: string
  assume "s \<noteq> []" "is_ascii (hd s)"
  then show "(dropWhile is_ascii s, s) \<in> measure length"
    by (cases s) (auto simp: le_imp_less_Suc length_dropWhile_le)
next
  fix s :: string
  assume "s \<noteq> []" "\<not> is_ascii (hd s)"
  then show "(dropWhile (\<lambda>c. \<not> is_ascii c) s, s) \<in> measure length"
    by (cases s) (auto simp: le_imp_less_Suc length_dropWhile_le)
qed

declare unquote_parts.simps [simp del]

definition unquote :: "string \<Rightarrow> string" where
  \<comment> \<open>with \<open>encoding='utf-8'\<close> and \<open>errors='replace'\<close>\<close>
  "unquote s = (if CHR ''%'' \<notin> set s then s else unquote_parts s)"

definition unquote_plus :: "string \<Rightarrow> string" where
  "unquote_plus s = unquote (replace s ''+'' '' '')"

definition always_safe :: string where
  \<comment> \<open>\<open>_ALWAYS_SAFE\<close>\<close>
  "always_safe = uppercase_letters @ lowercase_letters @ ''0123456789'' @ ''_.-~''"

definition hex2 :: "char \<Rightarrow> string" where
  \<comment> \<open>\<open>'{:02X}'.format(b)\<close>\<close>
  "hex2 c = [hexdig_upper ! ((of_char c :: nat) div 16), hexdig_upper ! ((of_char c :: nat) mod 16)]"

definition quote_from_bytes :: "string \<Rightarrow> string \<Rightarrow> string" where
  "quote_from_bytes bs safe =
     concat (map (\<lambda>c. if c \<in> set (always_safe @ safe) then [c] else CHR ''%'' # hex2 c) bs)"

definition quote_plus :: "string \<Rightarrow> string" where
  \<comment> \<open>\<open>quote_plus(string)\<close> with \<open>safe=''\<close>\<close>
  "quote_plus s =
     (if CHR '' '' \<notin> set s then quote_from_bytes s ''''
      else replace (quote_from_bytes s '' '') '' '' ''+'')"

fun split :: "string \<Rightarrow> char \<Rightarrow> string list" where
  \<comment> \<open>\<open>s.split(sep)\<close> for a separator of one character\<close>
  "split [] sep = [[]]"
| "split (c # cs) sep =
     (if c = sep then [] # split cs sep
      else (case split cs sep of
              piece # pieces \<Rightarrow> (c # piece) # pieces
            | [] \<Rightarrow> [[c]]))"

definition partition_eq :: "string \<Rightarrow> string \<times> string" where
  \<comment> \<open>\<open>name, has_eq, value = name_value.partition('=')\<close>, without \<open>has_eq\<close>\<close>
  "partition_eq nv =
     (takeWhile (\<lambda>c. c \<noteq> CHR ''='') nv, drop 1 (dropWhile (\<lambda>c. c \<noteq> CHR ''='') nv))"

definition parse_qsl :: "string \<Rightarrow> (string \<times> string) list" where
  \<comment> \<open>with \<open>keep_blank_values=False\<close>, \<open>strict_parsing=False\<close>, \<open>separator='&'\<close>: a field
      that is empty or whose value is empty is skipped\<close>
  "parse_qsl qs =
     (if qs = [] then []
      else map (\<lambda>nv. (unquote_plus (fst (partition_eq nv)), unquote_plus (snd (partition_eq nv))))
             (filter (\<lambda>nv. nv \<noteq> [] \<and> snd (partition_eq nv) \<noteq> []) (split qs (CHR ''&''))))"

text \<open>
  A Python \<open>dict\<close> keeps its keys in the order of their first insertion, and \<open>urlencode\<close>
  writes them in that order: the dictionary of \<open>parse_qs\<close> is an association list with
  each key once.
\<close>

fun dict_add :: "(string \<times> string list) list \<Rightarrow> string \<Rightarrow> string \<Rightarrow> (string \<times> string list) list" where
  \<comment> \<open>the loop body of \<open>parse_qs\<close>: append to the key's list, or insert the key last\<close>
  "dict_add [] name v = [(name, [v])]"
| "dict_add ((k, vs) # d) name v =
     (if k = name then (k, vs @ [v]) # d else (k, vs) # dict_add d name v)"

definition parse_qs :: "string \<Rightarrow> (string \<times> string list) list" where
  "parse_qs qs = foldl (\<lambda>d (name, v). dict_add d name v) [] (parse_qsl qs)"

definition dict_has :: "(string \<times> string list) list \<Rightarrow> string \<Rightarrow> bool" where
  \<comment> \<open>\<open>key in d\<close>\<close>
  "dict_has d key = (key \<in> set (map fst d))"

definition dict_del :: "(string \<times> string list) list \<Rightarrow> string \<Rightarrow> (string \<times> string list) list" where
  \<comment> \<open>\<open>del d[key]\<close> for a key that is in \<open>d\<close>\<close>
  "dict_del d key = filter (\<lambda>kv. fst kv \<noteq> key) d"

fun join :: "string \<Rightarrow> string list \<Rightarrow> string" where
  \<comment> \<open>\<open>sep.join(l)\<close>\<close>
  "join sep [] = []"
| "join sep [x] = x"
| "join sep (x # y # ys) = x @ sep @ join sep (y # ys)"

definition urlencode :: "(string \<times> string list) list \<Rightarrow> string" where
  \<comment> \<open>with \<open>doseq=True\<close> on a dictionary of lists of strings\<close>
  "urlencode d =
     join ''&'' (concat (map (\<lambda>(k, vs). map (\<lambda>v. quote_plus k @ ''='' @ quote_plus v) vs) d))"

subsection \<open>remove_igshid_parameter and shorten_url\<close>

definition has_igshid :: "ParseResult \<Rightarrow> bool" where
  \<comment> \<open>\<open>'igshid' in query_params\<close>\<close>
  "has_igshid p = dict_has (parse_qs (query p)) ''igshid''"

definition igshid_link :: "env \<Rightarrow> string \<Rightarrow> exn + string" where
  \<comment> \<open>what one string cell holds after the loop body of \<open>remove_igshid_parameter\<close>\<close>
  "igshid_link E link =
     (case urlparse E link of
        Inl e \<Rightarrow> Inl e
      | Inr parsed_url \<Rightarrow>
          (let query_params = parse_qs (query parsed_url)
           in if dict_has query_params ''igshid''
              then (let new_query = urlencode (dict_del query_params ''igshid'');
                        new_url = urlunparse (parsed_url\<lparr>query := new_query\<rparr>)
                    in Inr new_url)
              else Inr link))"

definition igshid_count :: "env \<Rightarrow> string \<Rightarrow> nat" where
  \<comment> \<open>what the loop body adds to \<open>counter\<close>\<close>
  "igshid_count E link =
     (case urlparse E link of
        Inl e \<Rightarrow> 0
      | Inr parsed_url \<Rightarrow> (if has_igshid parsed_url then 1 else 0))"

fun remove_igshid_parameter :: "env \<Rightarrow> cell list \<Rightarrow> exn + (cell list \<times> nat)" where
  \<comment> \<open>the column after the pass, and \<open>counter\<close>; a \<open>ValueError\<close> of \<open>urlparse\<close> is not
      caught and ends the pass at that row\<close>
  "remove_igshid_parameter E [] = Inr ([], 0)"
| "remove_igshid_parameter E (NaN # rows) =
     (case remove_igshid_parameter E rows of
        Inl e \<Rightarrow> Inl e
      | Inr (rows', n) \<Rightarrow> Inr (NaN # rows', n))"
| "remove_igshid_parameter E (Str link # rows) =
     (case igshid_link E link of
        Inl e \<Rightarrow> Inl e
      | Inr new_url \<Rightarrow>
          (case remove_igshid_parameter E rows of
             Inl e \<Rightarrow> Inl e
           | Inr (rows', n) \<Rightarrow> Inr (Str new_url # rows', igshid_count E link + n)))"

definition shorten_url :: "env \<Rightarrow> string \<Rightarrow> exn + string" where
  "shorten_url E link =
     (case urlparse E link of
        Inl e \<Rightarrow> Inl e
      | Inr parsed_url \<Rightarrow> Inr (scheme parsed_url @ ''://'' @ netloc parsed_url @ ''/''))"


subsection \<open>The shared state and requests.get\<close>

text \<open>
  \<open>verified_links\<close>, \<open>status_codes\<close>, \<open>df\<close> and \<open>detailed_results\<close> are the module's global
  objects, which \<open>check_link_status\<close> and \<open>process_link\<close> mutate in place. \<open>status_codes\<close> is
  a dictionary in insertion order (the report lists it so). \<open>requests_log\<close> is not a
  variable of the program: it records every call of \<open>requests.get\<close> with its outcome, so
  that the number of probes can be stated.
\<close>

record state =
  verified_links :: "string \<rightharpoonup> string"
  status_codes :: "(int \<times> nat) list"
  df :: "cell list"
  detailed_results :: "(string \<times> string \<times> int) list"
  requests_log :: "(string \<times> response) list"

definition has_adapter :: "string \<Rightarrow> bool" where
  \<comment> \<open>Modelled from the requests library, which is not part of the repository:
      \<open>requests.get\<close> strips leading whitespace and sends a request only through a
      connection adapter, and it has one for a URL that starts with \<open>http://\<close> or
      \<open>https://\<close> in any case, and for no other. The model strips every leading control
      character, space and non-ASCII byte, which covers Python's whitespace.\<close>
  "has_adapter url =
     (let u = map lower (dropWhile (\<lambda>c. c0_control_or_space c \<or> \<not> is_ascii c) url)
      in startswith u ''http://'' \<or> startswith u ''https://'')"

definition requests_get :: "env \<Rightarrow> state \<Rightarrow> string \<Rightarrow> response \<times> state" where
  \<comment> \<open>\<open>requests.get(link, ...)\<close>: the network decides, but without an adapter the call
      raises, whatever the network would have answered\<close>
  "requests_get E st url =
     (let r = respond E (length (requests_log st)) url;
          r = (if has_adapter url then r
               else (case r of Status _ \<Rightarrow> RequestException | _ \<Rightarrow> r))
      in (r, st\<lparr>requests_log := requests_log st @ [(url, r)]\<rparr>))"

fun count_status :: "(int \<times> nat) list \<Rightarrow> int \<Rightarrow> (int \<times> nat) list" where
  \<comment> \<open>\<open>status_codes[code] = status_codes.get(code, 0) + 1\<close>\<close>
  "count_status [] code = [(code, 1)]"
| "count_status ((k, n) # h) code =
     (if k = code then (k, n + 1) # h else (k, n) # count_status h code)"

definition set_verified :: "state \<Rightarrow> string \<Rightarrow> string \<Rightarrow> state" where
  \<comment> \<open>\<open>verified_links[link] = v\<close>\<close>
  "set_verified st link v = st\<lparr>verified_links := (verified_links st)(link \<mapsto> v)\<rparr>"

definition clear_cell :: "state \<Rightarrow> nat \<Rightarrow> state" where
  \<comment> \<open>\<open>df.at[index, column_name] = ""\<close>, for the label of a row of the frame (the
      dispatcher passes no other)\<close>
  "clear_cell st index = st\<lparr>df := (df st)[index := Str '''']\<rparr>"

definition retriable :: "env \<Rightarrow> string \<Rightarrow> bool" where
  \<comment> \<open>a 404 for this link can lead to the retry: the link can be answered at all, and
      its shortened form is another string\<close>
  "retriable E link =
     (has_adapter link \<and> (case shorten_url E link of Inl e \<Rightarrow> False | Inr s \<Rightarrow> s \<noteq> link))"

subsection \<open>The shortened URL is a fixed point of shorten_url\<close>

text \<open>
  \<open>check_link_status\<close> calls itself on the shortened link, so its definition needs a
  termination argument: a shortened link that can be answered at all is its own shortened
  form.
\<close>

lemma scheme_chars_all:
  "list_all (\<lambda>c. lower c \<in> set scheme_chars \<and> lower (lower c) = lower c
     \<and> c \<noteq> CHR '':'' \<and> c \<notin> set unsafe_url_bytes) scheme_chars"
  by code_simp

lemma letters_all:
  "list_all (\<lambda>c. ascii_alpha (lower c) \<and> \<not> c0_control_or_space c \<and> is_ascii c)
     (lowercase_letters @ uppercase_letters)"
  by code_simp

lemma scheme_char_facts:
  assumes "c \<in> set scheme_chars"
  shows "lower c \<in> set scheme_chars" "lower (lower c) = lower c"
    "c \<noteq> CHR '':''" "c \<notin> set unsafe_url_bytes"
  using assms scheme_chars_all unfolding list_all_iff by blast+

lemma ascii_alpha_facts:
  assumes "ascii_alpha c"
  shows "ascii_alpha (lower c)" "\<not> c0_control_or_space c" "is_ascii c"
  using assms letters_all unfolding list_all_iff ascii_alpha_def by blast+

definition valid_scheme :: "string \<Rightarrow> bool" where
  "valid_scheme sch =
     (sch \<noteq> [] \<and> ascii_alpha (hd sch) \<and> list_all (\<lambda>c. c \<in> set scheme_chars) sch
      \<and> map lower sch = sch)"

definition valid_netloc :: "env \<Rightarrow> string \<Rightarrow> bool" where
  "valid_netloc E nl =
     (list_all (\<lambda>c. \<not> netloc_delim c \<and> c \<notin> set unsafe_url_bytes) nl
      \<and> brackets_ok E nl \<and> checknetloc E nl)"

lemma split_scheme_result:
  assumes "split_scheme url = (sch, rest)"
  shows "(sch = [] \<or> valid_scheme sch) \<and> set rest \<subseteq> set url"
proof (cases "sch = []")
  case True
  with assms show ?thesis
    by (auto simp: split_scheme_def Let_def split: if_splits dest: in_set_dropD)
next
  case False
  define pre where "pre = takeWhile (\<lambda>c. c \<noteq> CHR '':'') url"
  from assms False have pre: "pre \<noteq> []" "ascii_alpha (hd pre)"
      "list_all (\<lambda>c. c \<in> set scheme_chars) pre" "sch = map lower pre"
      "rest = drop (Suc (length pre)) url"
    by (auto simp: split_scheme_def Let_def pre_def split: if_splits)
  have "hd sch = lower (hd pre)" using pre by (simp add: hd_map)
  moreover have "list_all (\<lambda>c. c \<in> set scheme_chars) sch"
    using pre(3,4) by (auto simp: list_all_iff scheme_char_facts(1))
  moreover have "map lower sch = sch"
    using pre(3,4) by (auto simp: list_all_iff scheme_char_facts(2))
  ultimately have "valid_scheme sch"
    using pre by (simp add: valid_scheme_def ascii_alpha_facts(1))
  moreover have "set rest \<subseteq> set url" using pre(5) by (auto dest: in_set_dropD)
  ultimately show ?thesis by simp
qed

lemma brackets_ok_Nil [simp]: "brackets_ok E []"
  by (simp add: brackets_ok_def)

lemma checknetloc_Nil [simp]: "checknetloc E []"
  by (simp add: checknetloc_def)

lemma urlsplit_result:
  assumes "urlsplit E url = Inr (sch, nl, pth, qry, frag)"
  shows "(sch = [] \<or> valid_scheme sch) \<and> valid_netloc E nl"
proof -
  define url2 where "url2 = filter (\<lambda>c. c \<notin> set unsafe_url_bytes) (dropWhile c0_control_or_space url)"
  obtain s url3 where ss: "split_scheme url2 = (s, url3)" by (cases "split_scheme url2")
  from split_scheme_result[OF ss] have s: "s = [] \<or> valid_scheme s" and sub: "set url3 \<subseteq> set url2"
    by simp_all
  have safe: "\<forall>c \<in> set url3. c \<notin> set unsafe_url_bytes"
    using sub by (auto simp: url2_def)
  from assms ss have sch: "sch = s"
    by (auto simp: urlsplit_def Let_def url2_def split: prod.splits if_splits)
  show ?thesis
  proof (cases "take 2 url3 = ''//''")
    case True
    with assms ss have nl: "nl = fst (splitnetloc url3)" and ok: "brackets_ok E nl" "checknetloc E nl"
      by (auto simp: urlsplit_def Let_def url2_def split: prod.splits if_splits)
    have "list_all (\<lambda>c. \<not> netloc_delim c \<and> c \<notin> set unsafe_url_bytes) nl"
      using safe unfolding nl splitnetloc_def list_all_iff
      by (auto dest: set_takeWhileD in_set_dropD)
    with ok s sch show ?thesis by (simp add: valid_netloc_def)
  next
    case False
    with assms ss have "nl = []"
      by (auto simp: urlsplit_def Let_def url2_def split: prod.splits if_splits)
    with s sch show ?thesis by (simp add: valid_netloc_def)
  qed
qed

lemma split_scheme_canonical:
  assumes "valid_scheme sch"
  shows "split_scheme (sch @ CHR '':'' # rest) = (sch, rest)"
proof -
  have nc: "\<forall>c \<in> set sch. c \<noteq> CHR '':''"
    using assms by (auto simp: valid_scheme_def list_all_iff scheme_char_facts(3))
  then have tw: "takeWhile (\<lambda>c. c \<noteq> CHR '':'') (sch @ CHR '':'' # rest) = sch"
    by (simp add: takeWhile_tail)
  show ?thesis
    using assms unfolding split_scheme_def tw Let_def by (simp add: valid_scheme_def)
qed

lemma urlsplit_canonical:
  assumes sch: "valid_scheme sch" and nl: "valid_netloc E nl"
  shows "urlsplit E (sch @ ''://'' @ nl @ ''/'') = Inr (sch, nl, ''/'', '''', '''')"
proof -
  let ?u = "sch @ ''://'' @ nl @ ''/''"
  obtain c cs where c: "sch = c # cs" "ascii_alpha c"
    using sch by (cases sch) (auto simp: valid_scheme_def)
  have 1: "dropWhile c0_control_or_space ?u = ?u"
    using c by (simp add: ascii_alpha_facts(2))
  have "\<forall>x \<in> set sch. x \<notin> set unsafe_url_bytes"
    using sch by (auto simp: valid_scheme_def list_all_iff scheme_char_facts(4))
  moreover have "\<forall>x \<in> set nl. x \<notin> set unsafe_url_bytes"
    using nl by (auto simp: valid_netloc_def list_all_iff)
  moreover have "\<forall>x \<in> set ''://''. x \<notin> set unsafe_url_bytes" by code_simp
  ultimately have 2: "filter (\<lambda>c. c \<notin> set unsafe_url_bytes) ?u = ?u"
    by (auto simp: filter_id_conv)
  have 3: "split_scheme ?u = (sch, ''//'' @ nl @ ''/'')"
    using split_scheme_canonical[OF sch, of "''//'' @ nl @ ''/''"] by simp
  have nd: "\<forall>x \<in> set nl. \<not> netloc_delim x"
    using nl by (auto simp: valid_netloc_def list_all_iff)
  have 4: "splitnetloc (''//'' @ nl @ ''/'') = (nl, ''/'')"
    using nd by (simp add: splitnetloc_def takeWhile_tail dropWhile_append3 netloc_delim_def)
  show ?thesis
    using nl 4 unfolding urlsplit_def 1 2 3 Let_def
    by (simp add: valid_netloc_def split_once_def)
qed


lemma urlparse_scheme_netloc:
  assumes "urlparse E url = Inr p"
  shows "\<exists>pth qry frag. urlsplit E url = Inr (scheme p, netloc p, pth, qry, frag)"
  using assms by (auto simp: urlparse_def Let_def split: sum.splits prod.splits if_splits)

lemma has_adapter_colon: "\<not> has_adapter (CHR '':'' # s)"
  by (simp add: has_adapter_def c0_control_or_space_def is_ascii_def startswith_def lower_def
      uppercase_letters_def lowercase_letters_def)

lemma shorten_url_fixed:
  assumes "shorten_url E link = Inr s" and "has_adapter s"
  shows "shorten_url E s = Inr s"
proof -
  from assms(1) obtain p where p: "urlparse E link = Inr p"
      and s: "s = scheme p @ ''://'' @ netloc p @ ''/''"
    by (auto simp: shorten_url_def split: sum.splits)
  from urlparse_scheme_netloc[OF p] urlsplit_result
  have v: "scheme p = [] \<or> valid_scheme (scheme p)" "valid_netloc E (netloc p)"
    by blast+
  have "scheme p \<noteq> []"
    using assms(2) has_adapter_colon unfolding s by auto
  with v have "valid_scheme (scheme p)" by simp
  from urlsplit_canonical[OF this v(2)]
  have "urlparse E s = Inr \<lparr>scheme = scheme p, netloc = netloc p, path = ''/'', params = '''',
          query = '''', fragment = ''''\<rparr>"
    unfolding s by (simp add: urlparse_def)
  then show ?thesis by (simp add: shorten_url_def s)
qed


subsection \<open>check_link_status, process_link and the dispatcher\<close>

function check_link_status ::
  "env \<Rightarrow> string \<Rightarrow> nat \<Rightarrow> state \<Rightarrow> bool \<Rightarrow> (exn + string \<times> int) \<times> state" where
  \<comment> \<open>the returned pair \<open>(status, status_code)\<close> or the exception that leaves the function,
      and the shared state afterwards\<close>
  "check_link_status E link index st test_websites =
     (if verified_links st link = Some ''Working'' then (Inr (''Working'', 200), st)
      else
        (case requests_get E st link of
           (OtherException, st1) \<Rightarrow> (Inl OtherError, st1)
         | (RequestException, st1) \<Rightarrow>
             (let st2 = st1\<lparr>status_codes := count_status (status_codes st1) 0\<rparr>;
                  st3 = clear_cell st2 index;
                  st4 = set_verified st3 link ''Not Working''
              in (Inr (''Not Working'', 0), st4))
         | (Status status_code, st1) \<Rightarrow>
             (let st2 = st1\<lparr>status_codes := count_status (status_codes st1) status_code\<rparr>
              in if status_code = 200 then
                   (Inr (''Working'', status_code), set_verified st2 link ''Working'')
                 else if status_code = 406 then
                   (Inr (''Not Working'', status_code),
                    clear_cell (set_verified st2 link ''Not Working'') index)
                 else if status_code = 404 then
                   (case shorten_url E link of
                      Inl e \<Rightarrow> (Inl e, st2)
                    | Inr shortened_link \<Rightarrow>
                        if shortened_link = link \<or> \<not> test_websites then
                          (Inr (''Not Working'', status_code),
                           set_verified (clear_cell st2 index) link ''Not Working'')
                        else check_link_status E shortened_link index st2 test_websites)
                 else if status_code = 429 then
                   (Inr (''Working'', status_code), set_verified st2 link ''Working'')
                 else if status_code = 403 then
                   (if test_websites then
                      (Inr (''Working'', status_code), set_verified st2 link ''Working'')
                    else
                      (Inr (''Not Working'', status_code),
                       clear_cell (set_verified st2 link ''Not Working'') index))
                 else
                   (Inr (''Not Working'', status_code),
                    clear_cell (set_verified st2 link ''Not Working'') index))))"
  by pat_completeness auto

lemma requests_get_Status:
  "requests_get E st link = (Status c, st1) \<Longrightarrow> has_adapter link"
  by (auto simp: requests_get_def Let_def split: if_splits response.splits)

termination check_link_status
proof (relation "measure (\<lambda>(E, link, index, st, tw). if retriable E link then 1 else 0)")
qed (auto simp: retriable_def dest: requests_get_Status[OF sym] shorten_url_fixed)

definition process_link :: "env \<Rightarrow> nat \<Rightarrow> string \<Rightarrow> state \<Rightarrow> bool \<Rightarrow> (string \<times> string) \<times> state" where
  \<comment> \<open>the returned pair \<open>(link, status)\<close>; \<open>except Exception\<close> catches whatever
      \<open>check_link_status\<close> raises\<close>
  "process_link E index link st test_websites =
     (let (r, st1) = check_link_status E link index st test_websites;
          (status, status_code) = (case r of Inl e \<Rightarrow> (''Error'', 0) | Inr sc \<Rightarrow> sc);
          st2 = st1\<lparr>detailed_results := detailed_results st1 @ [(link, status, status_code)]\<rparr>
      in ((link, status), st2))"

definition read_links :: "cell list \<Rightarrow> string list" where
  \<comment> \<open>\<open>df[column_name].dropna().tolist()\<close>\<close>
  "read_links rows = concat (map (\<lambda>c. case c of Str s \<Rightarrow> [s] | NaN \<Rightarrow> []) rows)"

definition row_of :: "cell list \<Rightarrow> string \<Rightarrow> exn + nat" where
  \<comment> \<open>\<open>df.index[df[column_name] == link].tolist()[0]\<close>: the first row that holds the link\<close>
  "row_of rows link =
     (case index_of (Str link) rows of None \<Rightarrow> Inl IndexError | Some i \<Rightarrow> Inr i)"

text \<open>
  The thread pool runs up to ten tasks at once over the shared objects. The model runs
  one schedule of it: each task runs to its end when it is submitted. The two counters
  belong to the main thread alone, which reads one result per future.
\<close>

fun submit_all ::
  "env \<Rightarrow> string list \<Rightarrow> state \<Rightarrow> bool \<Rightarrow> exn + ((exn + string \<times> string) list \<times> state)" where
  \<comment> \<open>the dictionary comprehension over \<open>links\<close>: one future per link, each holding what
      \<open>future.result()\<close> gives; the row lookup runs in the main thread and is not guarded\<close>
  "submit_all E [] st test_websites = Inr ([], st)"
| "submit_all E (link # links) st test_websites =
     (case row_of (df st) link of
        Inl e \<Rightarrow> Inl e
      | Inr index \<Rightarrow>
          (let (res, st1) = process_link E index link st test_websites
           in (case submit_all E links st1 test_websites of
                 Inl e \<Rightarrow> Inl e
               | Inr (futures, st2) \<Rightarrow> Inr (Inr res # futures, st2))))"

fun count_results :: "(exn + string \<times> string) list \<Rightarrow> nat \<times> nat \<Rightarrow> nat \<times> nat" where
  \<comment> \<open>the loop over the completed futures, on \<open>(working_count, not_working_count)\<close>\<close>
  "count_results [] counts = counts"
| "count_results (future # futures) (working_count, not_working_count) =
     (let (link, status) = (case future of Inl e \<Rightarrow> (''Unknown'', ''Error'') | Inr ls \<Rightarrow> ls)
      in if status = ''Working''
         then count_results futures (working_count + 1, not_working_count)
         else count_results futures (working_count, not_working_count + 1))"

definition run_all ::
  "env \<Rightarrow> string list \<Rightarrow> state \<Rightarrow> bool \<Rightarrow> exn + ((nat \<times> nat) \<times> state)" where
  \<comment> \<open>step 4 of the script: \<open>(working_count, not_working_count)\<close> and the state after the
      \<open>with ThreadPoolExecutor\<close> block\<close>
  "run_all E links st test_websites =
     (case submit_all E links st test_websites of
        Inl e \<Rightarrow> Inl e
      | Inr (futures, st') \<Rightarrow> Inr (count_results futures (0, 0), st'))"

subsection \<open>The start of a run\<close>

definition init_state :: "cell list \<Rightarrow> (string \<rightharpoonup> string) \<Rightarrow> state" where
  \<comment> \<open>the shared objects before step 4: the column, the cache as loaded from the JSON
      file, an empty \<open>status_codes\<close> and an empty \<open>detailed_results\<close>\<close>
  "init_state rows cache =
     \<lparr>verified_links = cache, status_codes = [], df = rows, detailed_results = [],
      requests_log = []\<rparr>"

definition plain_env :: "(nat \<Rightarrow> string \<Rightarrow> response) \<Rightarrow> env" where
  \<comment> \<open>an environment for the concrete runs below, all on ASCII links without brackets,
      where neither library check is consulted\<close>
  "plain_env net = \<lparr>bracketed_host_ok = (\<lambda>h. False), nfkc_ok = (\<lambda>n. False), respond = net\<rparr>"

subsection \<open>Counting probes\<close>

definition histogram_total :: "state \<Rightarrow> nat" where
  \<comment> \<open>the sum of the counts of \<open>status_codes\<close>, the sentinel 0 included\<close>
  "histogram_total st = sum_list (map snd (status_codes st))"

definition answered :: "string \<times> response \<Rightarrow> bool" where
  \<comment> \<open>the request came back with a status code or a \<open>RequestException\<close>\<close>
  "answered p = (snd p \<noteq> OtherException)"

definition answered_probes :: "state \<Rightarrow> nat" where
  "answered_probes st = length (filter answered (requests_log st))"

definition triggers_retry :: "env \<Rightarrow> bool \<Rightarrow> string \<times> response \<Rightarrow> bool" where
  \<comment> \<open>the request is one that \<open>check_link_status\<close> answers by calling itself on the
      shortened link\<close>
  "triggers_retry E test_websites p =
     (snd p = Status 404 \<and> test_websites
      \<and> (case shorten_url E (fst p) of Inl e \<Rightarrow> False | Inr s \<Rightarrow> s \<noteq> fst p))"

definition terminal_probes :: "env \<Rightarrow> bool \<Rightarrow> state \<Rightarrow> nat" where
  \<comment> \<open>the requests that do not trigger the retry\<close>
  "terminal_probes E test_websites st =
     length (filter (\<lambda>p. \<not> triggers_retry E test_websites p) (requests_log st))"

definition script ::
  "env \<Rightarrow> cell list \<Rightarrow> (string \<rightharpoonup> string) \<Rightarrow> bool \<Rightarrow> exn + ((nat \<times> nat) \<times> state)" where
  \<comment> \<open>steps 1 to 4 of the script on the loaded column: the two rewriting passes, then
      the checks of the links read from the rewritten column\<close>
  "script E rows cache test_websites =
     (let (rows1, updated) = update_links_to_https rows
      in (case remove_igshid_parameter E rows1 of
            Inl e \<Rightarrow> Inl e
          | Inr (rows2, removed) \<Rightarrow>
              run_all E (read_links rows2) (init_state rows2 cache) test_websites))"

subsection \<open>The classifier table of the specification\<close>

text \<open>
  The program has no classifier of its own: the decisions are the branches of
  \<open>check_link_status\<close>. The definitions of this subsection follow the words of the
  specification (its section 4.3), to be compared with the code: a probe result is a
  status code or a transport failure, and the table gives either an outcome or the retry
  on the shortened URL.
\<close>

datatype probe_result = HttpStatus int | TransportFailure

datatype verdict = Outcome string | RetryShortened

definition classify :: "probe_result \<Rightarrow> bool \<Rightarrow> bool \<Rightarrow> verdict" where
  \<comment> \<open>the table, row by row; the arguments are the probe result, the retry mode and
      whether the shortened URL equals the original\<close>
  "classify pr retry_mode shortened_is_original =
     (case pr of
        TransportFailure \<Rightarrow> Outcome ''Not Working''
      | HttpStatus status \<Rightarrow>
          if status = 200 then Outcome ''Working''
          else if status = 406 then Outcome ''Not Working''
          else if status = 404 then
            (if shortened_is_original \<or> \<not> retry_mode then Outcome ''Not Working''
             else RetryShortened)
          else if status = 429 then Outcome ''Working''
          else if status = 403 then
            (if retry_mode then Outcome ''Working'' else Outcome ''Not Working'')
          else Outcome ''Not Working'')"

definition recorded_code :: "probe_result \<Rightarrow> int" where
  \<comment> \<open>the status code a result is recorded under: the sentinel 0 for a transport failure\<close>
  "recorded_code pr = (case pr of HttpStatus status \<Rightarrow> status | TransportFailure \<Rightarrow> 0)"

definition probe_result_of :: "response \<Rightarrow> probe_result option" where
  \<comment> \<open>what \<open>requests.get\<close> did, as a probe result of the table; an exception that is not a
      \<open>RequestException\<close> is none\<close>
  "probe_result_of r =
     (case r of Status c \<Rightarrow> Some (HttpStatus c) | RequestException \<Rightarrow> Some TransportFailure
      | OtherException \<Rightarrow> None)"

subsection \<open>Concrete runs\<close>

definition dead_env :: env where
  \<comment> \<open>every request is answered 404\<close>
  "dead_env = plain_env (\<lambda>n u. Status 404)"

definition broken_env :: env where
  \<comment> \<open>every request raises an exception that is not a \<open>RequestException\<close>\<close>
  "broken_env = plain_env (\<lambda>n u. OtherException)"

definition page_state :: state where
  \<comment> \<open>one row, nothing cached\<close>
  "page_state = init_state [Str ''https://c.com/404page''] Map.empty"

definition root_state :: "string \<Rightarrow> state" where
  \<comment> \<open>one row that holds a site's root, cached with the given label\<close>
  "root_state label = init_state [Str ''https://c.com/''] [''https://c.com/'' \<mapsto> label]"

definition scenario_env :: env where
  \<comment> \<open>the network of the end-to-end scenario of the specification: the page of
      \<open>c.com\<close> and its root are answered 404, everything else 200\<close>
  "scenario_env =
     plain_env (\<lambda>n u. if u = ''https://c.com/404page'' \<or> u = ''https://c.com/''
                       then Status 404 else Status 200)"

definition scenario_rows :: "cell list" where
  \<comment> \<open>the column of that scenario as loaded\<close>
  "scenario_rows = [Str ''//a.com'', Str ''http://b.com/x?igshid=9'', Str ''https://c.com/404page'']"

definition scenario_links :: "string list" where
  \<comment> \<open>the links of that scenario after the two rewriting passes\<close>
  "scenario_links = [''https://a.com'', ''https://b.com/x'', ''https://c.com/404page'']"

subsection \<open>The query after the removal\<close>

function grouped :: "(string \<times> string) list \<Rightarrow> (string \<times> string list) list" where
  \<comment> \<open>the fields of a query grouped by name: each name once, in the order of its first
      occurrence, with all its values in their order\<close>
  "grouped [] = []"
| "grouped ((k, v) # fs) =
     (k, v # map snd (filter (\<lambda>f. fst f = k) fs)) # grouped (filter (\<lambda>f. fst f \<noteq> k) fs)"
  by pat_completeness auto
termination
  by (relation "measure length") (auto simp: less_Suc_eq_le)

definition encode_field :: "string \<times> string \<Rightarrow> string" where
  \<comment> \<open>one field as \<open>urlencode\<close> writes it\<close>
  "encode_field f = quote_plus (fst f) @ ''='' @ quote_plus (snd f)"

definition example_parse :: ParseResult where
  \<comment> \<open>what \<open>urlparse\<close> makes of the example of the specification,
      \<open>https://ex.com/a?igshid=123&b=2\<close>\<close>
  "example_parse = \<lparr>scheme = ''https'', netloc = ''ex.com'', path = ''/a'', params = '''',
                     query = ''igshid=123&b=2'', fragment = ''''\<rparr>"

definition query_fields :: "string \<Rightarrow> (string \<times> string) list" where
  \<comment> \<open>the parameters of a query string as it is written: what stands between the
      \<open>&\<close>, empty fields apart, each split at its first \<open>=\<close>, name and value decoded\<close>
  "query_fields qs =
     map (\<lambda>nv. (unquote_plus (fst (partition_eq nv)), unquote_plus (snd (partition_eq nv))))
       (filter (\<lambda>nv. nv \<noteq> []) (split qs (CHR ''&'')))"

definition no_blank_value :: "string \<Rightarrow> bool" where
  \<comment> \<open>every parameter of the query string is written with a non-empty value\<close>
  "no_blank_value qs =
     list_all (\<lambda>nv. snd (partition_eq nv) \<noteq> [])
       (filter (\<lambda>nv. nv \<noteq> []) (split qs (CHR ''&'')))"



declare check_link_status.simps [simp del]

section \<open>Properties\<close>

lemma startswith_append [simp]: "startswith (p @ s) p"
  by (simp add: startswith_def)



subsection \<open>One call of check_link_status\<close>

lemma check_cached:
  "verified_links st link = Some ''Working'' \<Longrightarrow>
   check_link_status E link index st tw = (Inr (''Working'', 200), st)"
  by (simp add: check_link_status.simps)

lemma requests_get_log:
  "requests_get E st link = (r, st1) \<Longrightarrow> st1 = st\<lparr>requests_log := requests_log st @ [(link, r)]\<rparr>"
  by (auto simp: requests_get_def Let_def)

lemma check_uncached:
  assumes "verified_links st link \<noteq> Some ''Working''" and "requests_get E st link = (r, st1)"
  shows "check_link_status E link index st tw =
     (case r of
        OtherException \<Rightarrow> (Inl OtherError, st1)
      | RequestException \<Rightarrow>
          (Inr (''Not Working'', 0),
           set_verified (clear_cell (st1\<lparr>status_codes := count_status (status_codes st1) 0\<rparr>) index)
             link ''Not Working'')
      | Status c \<Rightarrow>
          (let st2 = st1\<lparr>status_codes := count_status (status_codes st1) c\<rparr>
           in if c = 200 \<or> c = 429 \<or> (c = 403 \<and> tw) then
                (Inr (''Working'', c), set_verified st2 link ''Working'')
              else if c = 404 then
                (case shorten_url E link of
                   Inl e \<Rightarrow> (Inl e, st2)
                 | Inr s \<Rightarrow>
                     if s = link \<or> \<not> tw then
                       (Inr (''Not Working'', c), set_verified (clear_cell st2 index) link ''Not Working'')
                     else check_link_status E s index st2 tw)
              else (Inr (''Not Working'', c), clear_cell (set_verified st2 link ''Not Working'') index)))"
  using assms
  by (subst check_link_status.simps) (auto simp: Let_def split: response.splits sum.splits)

lemma log_extends:
  "check_link_status E link index st tw = (r, st') \<Longrightarrow> \<exists>rest. requests_log st' = requests_log st @ rest"
proof (induction E link index st tw arbitrary: r st' rule: check_link_status.induct)
  case (1 E link index st tw)
  show ?case
  proof (cases "verified_links st link = Some ''Working''")
    case True
    with 1 show ?thesis by (simp add: check_cached)
  next
    case False
    obtain q st1 where get: "requests_get E st link = (q, st1)" by force
    note st1 = requests_get_log[OF get]
    show ?thesis
      using "1.prems" "1.IH"[OF False get[symmetric]] check_uncached[OF False get, of index tw]
      by (fastforce simp: st1 Let_def set_verified_def clear_cell_def split: response.splits sum.splits if_splits)
  qed
qed


lemma check_df:
  "check_link_status E link index st tw = (r, st') \<Longrightarrow>
   (case r of Inl e \<Rightarrow> df st' = df st
    | Inr (out, c) \<Rightarrow> out \<noteq> ''Not Working'' \<longrightarrow> df st' = df st)"
proof (induction E link index st tw arbitrary: r st' rule: check_link_status.induct)
  case (1 E link index st tw)
  show ?case
  proof (cases "verified_links st link = Some ''Working''")
    case True
    with 1 show ?thesis by (auto simp: check_cached)
  next
    case False
    obtain q st1 where get: "requests_get E st link = (q, st1)" by force
    note st1 = requests_get_log[OF get]
    show ?thesis
      using "1.prems" "1.IH"[OF False get[symmetric]] check_uncached[OF False get, of index tw]
      by (fastforce simp: st1 Let_def set_verified_def clear_cell_def split: response.splits sum.splits if_splits)
  qed
qed

lemma sum_count_status: "sum_list (map snd (count_status h c)) = Suc (sum_list (map snd h))"
  by (induction h c rule: count_status.induct) auto

lemma check_histogram:
  "check_link_status E link index st tw = (r, st') \<Longrightarrow>
   histogram_total st' + answered_probes st = histogram_total st + answered_probes st'"
proof (induction E link index st tw arbitrary: r st' rule: check_link_status.induct)
  case (1 E link index st tw)
  show ?case
  proof (cases "verified_links st link = Some ''Working''")
    case True
    with 1 show ?thesis by (auto simp: check_cached)
  next
    case False
    obtain q st1 where get: "requests_get E st link = (q, st1)" by force
    note st1 = requests_get_log[OF get]
    show ?thesis
      using "1.prems" "1.IH"[OF False get[symmetric]] check_uncached[OF False get, of index tw]
      by (fastforce simp: st1 Let_def set_verified_def clear_cell_def histogram_total_def
          answered_probes_def answered_def sum_count_status
          split: response.splits sum.splits if_splits)
  qed
qed

lemma check_not_retriable:
  assumes "\<not> retriable E link"
  shows "length (requests_log (snd (check_link_status E link index st tw))) \<le> Suc (length (requests_log st))"
proof (cases "verified_links st link = Some ''Working''")
  case True
  then show ?thesis by (simp add: check_cached)
next
  case False
  obtain q st1 where get: "requests_get E st link = (q, st1)" by force
  note st1 = requests_get_log[OF get]
  have "q = Status 404 \<Longrightarrow> has_adapter link"
    using get by (auto dest: requests_get_Status)
  with assms show ?thesis
    using check_uncached[OF False get, of index tw]
    by (auto simp: st1 Let_def set_verified_def clear_cell_def retriable_def
        split: response.splits sum.splits if_splits)
qed

lemma at_most_two:
  "length (requests_log (snd (check_link_status E link index st tw))) \<le> length (requests_log st) + 2"
proof (cases "verified_links st link = Some ''Working''")
  case True
  then show ?thesis by (simp add: check_cached)
next
  case False
  obtain q st1 where get: "requests_get E st link = (q, st1)" by force
  note st1 = requests_get_log[OF get]
  have nr: "\<not> retriable E s" if "shorten_url E link = Inr s" for s
    using shorten_url_fixed[OF that] by (auto simp: retriable_def)
  have rec: "length (requests_log (snd (check_link_status E s index st2 tw))) \<le> length (requests_log st) + 2"
    if "shorten_url E link = Inr s" "requests_log st2 = requests_log st1" for s st2
    using check_not_retriable[OF nr[OF that(1)], of index st2 tw] that(2) by (simp add: st1)
  show ?thesis
    using check_uncached[OF False get, of index tw] rec
    by (auto simp: st1 Let_def set_verified_def clear_cell_def
        split: response.splits sum.splits if_splits)
qed

subsection \<open>Facts about the links of the concrete runs\<close>

lemma page_facts:
  "has_adapter ''https://c.com/404page''"
  "has_adapter ''https://c.com/''"
  "shorten_url E ''https://c.com/404page'' = Inr ''https://c.com/''"
  "shorten_url E ''https://c.com/'' = Inr ''https://c.com/''"
  by code_simp+

subsection \<open>The classifier\<close>

text \<open>
  Claim C1. For a link that is not cached as Working, whatever \<open>requests.get\<close> does
  short of an unexpected exception, \<open>check_link_status\<close> gives the verdict of the
  specification's table: 200 and 429 are Working; 406 is Not Working; 403 is Working in
  retry mode and Not Working otherwise; 404 is the call on the shortened URL, unless
  that URL equals the link or retry mode is off, and then it is Not Working; any other
  status is Not Working; a transport exception is Not Working with status code 0. Where
  the table gives an outcome, the call returns it with the recorded status code, has made
  this one request and no other, and has counted it once in the histogram under that
  code (under 0 for the transport exception).
\<close>

theorem classifier_table:
  assumes "verified_links st link \<noteq> Some ''Working''"
    and "requests_get E st link = (r, st1)"
    and "probe_result_of r = Some pr"
    and "pr = HttpStatus 404 \<longrightarrow> shorten_url E link = Inr s"
  shows "case classify pr tw (s = link) of
           Outcome out \<Rightarrow>
             (\<exists>st'. check_link_status E link index st tw = (Inr (out, recorded_code pr), st')
                \<and> requests_log st' = requests_log st @ [(link, r)]
                \<and> status_codes st' = count_status (status_codes st) (recorded_code pr))
         | RetryShortened \<Rightarrow>
             check_link_status E link index st tw =
               check_link_status E s index
                 (st1\<lparr>status_codes := count_status (status_codes st1) 404\<rparr>) tw"
  using assms(3,4) check_uncached[OF assms(1,2), of index tw] requests_get_log[OF assms(2)]
  by (auto simp: classify_def recorded_code_def probe_result_of_def Let_def set_verified_def
      clear_cell_def split: response.splits)

theorem classifier_table_witness:
  "check_link_status dead_env ''https://c.com/404page'' 0 page_state True =
     check_link_status dead_env ''https://c.com/'' 0
       (page_state\<lparr>requests_log := [(''https://c.com/404page'', Status 404)],
                   status_codes := [(404, 1)]\<rparr>) True"
proof -
  have 1: "verified_links page_state ''https://c.com/404page'' \<noteq> Some ''Working''"
    by (simp add: page_state_def init_state_def)
  have 2: "requests_get dead_env page_state ''https://c.com/404page'' =
      (Status 404, page_state\<lparr>requests_log := [(''https://c.com/404page'', Status 404)]\<rparr>)"
    by (simp add: requests_get_def Let_def page_facts dead_env_def plain_env_def page_state_def init_state_def)
  have 3: "probe_result_of (Status 404) = Some (HttpStatus 404)"
    by (simp add: probe_result_of_def)
  have 4: "HttpStatus 404 = HttpStatus 404 \<longrightarrow>
      shorten_url dead_env ''https://c.com/404page'' = Inr ''https://c.com/''"
    by (simp add: page_facts)
  show ?thesis
    using classifier_table[OF 1 2 3 4, where tw = True and index = 0]
    by (simp add: classify_def page_state_def init_state_def)
qed

subsection \<open>The bound on the fallback\<close>

text \<open>
  Claim C2. One call of \<open>check_link_status\<close> makes at most two requests, whatever the
  network answers: the call on the shortened link does not call again. And a link that is
  its own shortened form and is answered 404 is Not Working after its one request.
\<close>

theorem shortened_fallback_bound:
  "length (requests_log (snd (check_link_status E link index st tw))) \<le> length (requests_log st) + 2
   \<and> (verified_links st link \<noteq> Some ''Working'' \<and> fst (requests_get E st link) = Status 404
        \<and> shorten_url E link = Inr link
      \<longrightarrow> fst (check_link_status E link index st tw) = Inr (''Not Working'', 404)
        \<and> requests_log (snd (check_link_status E link index st tw))
            = requests_log st @ [(link, Status 404)])"
proof -
  have "fst (check_link_status E link index st tw) = Inr (''Not Working'', 404)
        \<and> requests_log (snd (check_link_status E link index st tw))
            = requests_log st @ [(link, Status 404)]"
    if a: "verified_links st link \<noteq> Some ''Working''" and b: "fst (requests_get E st link) = Status 404"
      and c: "shorten_url E link = Inr link"
  proof -
    obtain st1 where get: "requests_get E st link = (Status 404, st1)"
      using b by (cases "requests_get E st link") auto
    show ?thesis
      using check_uncached[OF a get, of index tw] c requests_get_log[OF get]
      by (simp add: Let_def set_verified_def clear_cell_def)
  qed
  with at_most_two show ?thesis by blast
qed

theorem shortened_fallback_bound_witness:
  "fst (check_link_status dead_env ''https://c.com/'' 0 (root_state ''Not Working'') True)
     = Inr (''Not Working'', 404)
   \<and> requests_log (snd (check_link_status dead_env ''https://c.com/'' 0 (root_state ''Not Working'') True))
     = [(''https://c.com/'', Status 404)]"
proof -
  have 1: "verified_links (root_state ''Not Working'') ''https://c.com/'' \<noteq> Some ''Working''"
    by (simp add: root_state_def init_state_def)
  have 2: "fst (requests_get dead_env (root_state ''Not Working'') ''https://c.com/'') = Status 404"
    by (simp add: requests_get_def Let_def page_facts dead_env_def plain_env_def)
  have 3: "requests_log (root_state ''Not Working'') = []"
    by (simp add: root_state_def init_state_def)
  show ?thesis
    using shortened_fallback_bound[of dead_env "''https://c.com/''" 0 "root_state ''Not Working''" True]
      1 2 3 page_facts(4)[of dead_env]
    by simp
qed

subsection \<open>The cache\<close>

text \<open>
  Claim C3. A link cached as Working is returned as Working with the state untouched, so
  without a request. A link cached as Not Working is requested again: the log of
  requests grows by a request to that very link.
\<close>

theorem cache_asymmetry:
  "(verified_links st link = Some ''Working'' \<longrightarrow>
      check_link_status E link index st tw = (Inr (''Working'', 200), st))
   \<and> (verified_links st link = Some ''Not Working'' \<longrightarrow>
      (\<exists>rest. requests_log (snd (check_link_status E link index st tw))
          = requests_log st @ (link, fst (requests_get E st link)) # rest))"
proof -
  have "\<exists>rest. requests_log (snd (check_link_status E link index st tw))
          = requests_log st @ (link, fst (requests_get E st link)) # rest"
    if a: "verified_links st link = Some ''Not Working''"
  proof -
    from a have nw: "verified_links st link \<noteq> Some ''Working''" by simp
    obtain q st1 where get: "requests_get E st link = (q, st1)" by force
    note st1 = requests_get_log[OF get]
    have rec: "\<exists>rest. requests_log (snd (check_link_status E s index st2 tw)) = requests_log st2 @ rest"
      for s st2
      using log_extends[of E s index st2 tw] by (cases "check_link_status E s index st2 tw") auto
    show ?thesis
    proof (cases "\<exists>s. q = Status 404 \<and> shorten_url E link = Inr s \<and> s \<noteq> link \<and> tw")
      case True
      then obtain s where s: "q = Status 404" "shorten_url E link = Inr s" "s \<noteq> link" "tw"
        by blast
      let ?st2 = "st1\<lparr>status_codes := count_status (status_codes st1) 404\<rparr>"
      have eq: "check_link_status E link index st tw = check_link_status E s index ?st2 tw"
        using check_uncached[OF nw get, of index tw] s by simp
      from rec[of s ?st2] obtain rest
        where "requests_log (snd (check_link_status E s index ?st2 tw)) = requests_log ?st2 @ rest"
        by blast
      then show ?thesis by (simp add: eq get st1)
    next
      case False
      then show ?thesis
        using check_uncached[OF nw get, of index tw]
        by (auto simp: get st1 Let_def set_verified_def clear_cell_def
            split: response.splits sum.splits if_splits)
    qed
  qed
  then show ?thesis by (simp add: check_cached)
qed

theorem cache_asymmetry_witness:
  "check_link_status dead_env ''https://c.com/'' 0 (root_state ''Working'') True
     = (Inr (''Working'', 200), root_state ''Working'')
   \<and> (\<exists>rest. requests_log (snd (check_link_status dead_env ''https://c.com/'' 0
                  (root_state ''Not Working'') True))
          = (''https://c.com/'', Status 404) # rest)"
proof -
  have 1: "verified_links (root_state ''Working'') ''https://c.com/'' = Some ''Working''"
    by (simp add: root_state_def init_state_def)
  have 2: "verified_links (root_state ''Not Working'') ''https://c.com/'' = Some ''Not Working''"
    by (simp add: root_state_def init_state_def)
  have 3: "fst (requests_get dead_env (root_state ''Not Working'') ''https://c.com/'') = Status 404"
    by (simp add: requests_get_def Let_def page_facts dead_env_def plain_env_def)
  have 4: "requests_log (root_state ''Not Working'') = []"
    by (simp add: root_state_def init_state_def)
  show ?thesis
    using cache_asymmetry[of "root_state ''Working''" "''https://c.com/''" dead_env 0 True]
      cache_asymmetry[of "root_state ''Not Working''" "''https://c.com/''" dead_env 0 True]
      1 2 3 4
    by simp
qed

text \<open>
  Claim C10. When the cache holds \<open>Working\<close> for a link, \<open>check_link_status\<close> returns
  \<open>("Working", 200)\<close> and leaves the whole shared state as it was: no request is made,
  and the histogram, the column and the cache are unchanged. \<open>process_link\<close> then
  appends the entry \<open>(link, "Working", 200)\<close> to the detailed results and changes nothing
  else.
\<close>

theorem cache_hit_frame:
  assumes "verified_links st link = Some ''Working''"
  shows "check_link_status E link index st tw = (Inr (''Working'', 200), st)
       \<and> process_link E index link st tw =
           ((link, ''Working''),
            st\<lparr>detailed_results := detailed_results st @ [(link, ''Working'', 200)]\<rparr>)"
  using assms by (simp add: check_cached process_link_def)

theorem cache_hit_frame_witness:
  "process_link (plain_env (\<lambda>n u. Status 500)) 0 ''https://a.com/''
      (init_state [Str ''https://a.com/''] [''https://a.com/'' \<mapsto> ''Working'']) True
   = ((''https://a.com/'', ''Working''),
      \<lparr>verified_links = [''https://a.com/'' \<mapsto> ''Working''], status_codes = [],
       df = [Str ''https://a.com/''],
       detailed_results = [(''https://a.com/'', ''Working'', 200)], requests_log = []\<rparr>)"
  using cache_hit_frame[of "init_state [Str ''https://a.com/''] [''https://a.com/'' \<mapsto> ''Working'']"
      "''https://a.com/''" "plain_env (\<lambda>n u. Status 500)" 0 True]
  by (simp add: init_state_def)

subsection \<open>The scheme upgrade\<close>

text \<open>
  Claim C7. The claim is that only the leading \<open>http://\<close> is rewritten. The code calls
  \<open>link.replace('http://', 'https://')\<close>, which rewrites every occurrence: on a link
  that carries a second URL in its query, that one is rewritten too.
\<close>

theorem update_rewrites_inner_scheme:
  "https_link ''http://a.com/?u=http://b.com'' = ''https://a.com/?u=https://b.com''"
  by (simp add: https_link_def startswith_def replace_def)

subsection \<open>Unexpected errors\<close>

text \<open>
  Claim C9. When \<open>check_link_status\<close> ends with an exception, \<open>process_link\<close> returns the
  status \<open>Error\<close>, records the entry \<open>(link, "Error", 0)\<close> and leaves the column as it was
  before the call; \<open>process_link\<close> itself returns a value in every case. The column is
  changed by no call that ends otherwise than with the outcome Not Working.
\<close>

theorem unexpected_error_caught:
  assumes "check_link_status E link index st tw = (r, st')"
  shows "case r of
           Inl e \<Rightarrow>
             process_link E index link st tw =
               ((link, ''Error''),
                st'\<lparr>detailed_results := detailed_results st' @ [(link, ''Error'', 0)]\<rparr>)
             \<and> df st' = df st
         | Inr (out, code) \<Rightarrow> out \<noteq> ''Not Working'' \<longrightarrow> df st' = df st"
  using assms check_df[OF assms]
  by (auto simp: process_link_def split: sum.splits)

theorem unexpected_error_caught_witness:
  "process_link broken_env 0 ''https://c.com/404page'' page_state True =
     ((''https://c.com/404page'', ''Error''),
      page_state\<lparr>requests_log := [(''https://c.com/404page'', OtherException)],
                  detailed_results := [(''https://c.com/404page'', ''Error'', 0)]\<rparr>)
   \<and> df (page_state\<lparr>requests_log := [(''https://c.com/404page'', OtherException)]\<rparr>)
       = df page_state"
proof -
  have c: "check_link_status broken_env ''https://c.com/404page'' 0 page_state True =
      (Inl OtherError, page_state\<lparr>requests_log := [(''https://c.com/404page'', OtherException)]\<rparr>)"
    by (simp add: check_link_status.simps requests_get_def page_facts broken_env_def plain_env_def
        page_state_def init_state_def)
  show ?thesis
    using unexpected_error_caught[OF c] by (simp add: page_state_def init_state_def)
qed

subsection \<open>The histogram\<close>

lemma process_link_histogram:
  "process_link E index link st tw = (res, st') \<Longrightarrow>
   histogram_total st' + answered_probes st = histogram_total st + answered_probes st'"
proof -
  assume p: "process_link E index link st tw = (res, st')"
  obtain r st1 where c: "check_link_status E link index st tw = (r, st1)" by force
  from p c have "histogram_total st' = histogram_total st1" "answered_probes st' = answered_probes st1"
    by (auto simp: process_link_def histogram_total_def answered_probes_def split: prod.splits)
  with check_histogram[OF c] show ?thesis by simp
qed

lemma submit_all_histogram:
  "submit_all E links st tw = Inr (futures, st') \<Longrightarrow>
   histogram_total st = answered_probes st \<Longrightarrow> histogram_total st' = answered_probes st'"
proof (induction links arbitrary: st futures)
  case Nil
  then show ?case by simp
next
  case (Cons link links)
  from Cons.prems(1) obtain index where i: "row_of (df st) link = Inr index"
    by (auto split: sum.splits)
  obtain res st1 where p: "process_link E index link st tw = (res, st1)"
    by (cases "process_link E index link st tw") auto
  from Cons.prems(1) i p obtain fs where s: "submit_all E links st1 tw = Inr (fs, st')"
    by (auto split: sum.splits)
  from process_link_histogram[OF p] Cons.prems(2)
  have "histogram_total st1 = answered_probes st1" by simp
  from Cons.IH[OF s this] show ?case .
qed

lemma submit_all_take:
  "submit_all E links st tw = Inr (futures, st') \<Longrightarrow>
   \<exists>fs st1. submit_all E (take n links) st tw = Inr (fs, st1)"
proof (induction links arbitrary: st futures n)
  case Nil
  then show ?case by simp
next
  case (Cons link links)
  show ?case
  proof (cases n)
    case 0
    then show ?thesis by simp
  next
    case (Suc m)
    from Cons.prems(1) obtain index where i: "row_of (df st) link = Inr index"
      by (auto split: sum.splits)
    obtain res st1 where p: "process_link E index link st tw = (res, st1)"
      by (cases "process_link E index link st tw") auto
    from Cons.prems(1) i p obtain fs where s: "submit_all E links st1 tw = Inr (fs, st')"
      by (auto split: sum.splits)
    from Cons.IH[OF s, of m] obtain fs1 st2
      where "submit_all E (take m links) st1 tw = Inr (fs1, st2)" by blast
    with i p Suc show ?thesis by simp
  qed
qed

lemma init_histogram:
  "histogram_total (init_state rows cache) = answered_probes (init_state rows cache)"
  by (simp add: histogram_total_def answered_probes_def init_state_def)

text \<open>
  Claim C5, as amended. The tasks of the dispatcher are taken one after another, each
  link check run to its end before the next begins. In every run of the dispatcher that
  completes from the state in which the script starts it (an empty histogram, no request
  made), after the first \<open>n\<close> link checks, for every \<open>n\<close> up to the number of links, and
  at the end of the run, the total of the histogram equals the number of requests made so
  far that came back with a status code or a \<open>RequestException\<close>, the 404 that leads to
  the retry on the shortened link included.
\<close>

theorem histogram_counts_answered_run:
  assumes "run_all E links (init_state rows cache) tw = Inr (counts, st')"
  shows "histogram_total st' = answered_probes st'
       \<and> (\<forall>n \<le> length links. \<exists>futures st.
             submit_all E (take n links) (init_state rows cache) tw = Inr (futures, st)
             \<and> histogram_total st = answered_probes st)"
proof -
  from assms obtain fs where s: "submit_all E links (init_state rows cache) tw = Inr (fs, st')"
    by (auto simp: run_all_def split: sum.splits prod.splits)
  have "histogram_total st' = answered_probes st'"
    by (rule submit_all_histogram[OF s init_histogram])
  moreover have "\<exists>futures st.
      submit_all E (take n links) (init_state rows cache) tw = Inr (futures, st)
      \<and> histogram_total st = answered_probes st" for n
  proof -
    from submit_all_take[OF s, of n] obtain fs1 st1
      where t: "submit_all E (take n links) (init_state rows cache) tw = Inr (fs1, st1)" by blast
    from submit_all_histogram[OF t init_histogram] t show ?thesis by blast
  qed
  ultimately show ?thesis by blast
qed

lemma scenario_histogram:
  "map_sum id (\<lambda>r. (fst r, status_codes (snd r), map snd (requests_log (snd r))))
     (run_all scenario_env scenario_links (init_state (map Str scenario_links) Map.empty) True)
     = Inr ((2, 1), [(200, 2), (404, 2)], [Status 200, Status 200, Status 404, Status 404])"
  by code_simp

theorem histogram_counts_answered_run_witness:
  "\<exists>st'. run_all scenario_env scenario_links (init_state (map Str scenario_links) Map.empty) True
            = Inr ((2, 1), st')
        \<and> histogram_total st' = 4 \<and> answered_probes st' = 4"
proof -
  obtain st' where r: "run_all scenario_env scenario_links
      (init_state (map Str scenario_links) Map.empty) True = Inr ((2, 1), st')"
      and h: "status_codes st' = [(200, 2), (404, 2)]"
    using scenario_histogram
    by (cases "run_all scenario_env scenario_links (init_state (map Str scenario_links) Map.empty) True")
      auto
  from h have 4: "histogram_total st' = 4" by (simp add: histogram_total_def)
  from histogram_counts_answered_run[OF r] have "histogram_total st' = answered_probes st'"
    by blast
  with r 4 show ?thesis by auto
qed

text \<open>
  The same holds at the end of the whole script, whose dispatcher starts from that state.
\<close>

lemma script_histogram:
  assumes "script E rows cache tw = Inr (counts, st')"
  shows "histogram_total st' = answered_probes st'"
proof -
  from assms obtain rows2
    where "run_all E (read_links rows2) (init_state rows2 cache) tw = Inr (counts, st')"
    by (auto simp: script_def split: prod.splits sum.splits)
  then obtain fs
    where s: "submit_all E (read_links rows2) (init_state rows2 cache) tw = Inr (fs, st')"
    by (auto simp: run_all_def split: sum.splits prod.splits)
  show ?thesis by (rule submit_all_histogram[OF s init_histogram])
qed

text \<open>
  Claim C5, as stated, counts only the requests that do not lead to the retry. It fails
  on one link that is answered 404 and whose shortened form is answered 404 too: two
  requests are counted, and one of them is terminal.
\<close>

theorem histogram_counts_retried_probe:
  "histogram_total (snd (process_link dead_env 0 ''https://c.com/404page'' page_state True)) = 2
   \<and> terminal_probes dead_env True
       (snd (process_link dead_env 0 ''https://c.com/404page'' page_state True)) = 1"
  by code_simp

subsection \<open>The dispatcher\<close>

lemma count_results_sum:
  "count_results futures (w, nw) = (w', nw') \<Longrightarrow> w' + nw' = w + nw + length futures"
proof (induction futures arbitrary: w nw)
  case Nil
  then show ?case by simp
next
  case (Cons future futures)
  then show ?case
    by (auto simp: Let_def split: prod.splits sum.splits if_splits)
qed

lemma submit_all_length:
  "submit_all E links st tw = Inr (futures, st') \<Longrightarrow> length futures = length links"
proof (induction links arbitrary: st futures)
  case Nil
  then show ?case by simp
next
  case (Cons link links)
  then show ?case
    by (auto simp: Let_def split: sum.splits prod.splits)
qed

text \<open>
  Claim C4. The loop over the completed futures adds one to exactly one of the two
  counters per future, so that from zero the counters sum to the number of futures,
  whatever the futures hold; a run of the dispatcher that completes has one future per
  submitted link, so its counters sum to the number of links. A future that raised and a
  task that returned the status \<open>Error\<close> are both counted as not working.
\<close>

theorem dispatcher_conservation:
  "(count_results futures (0, 0) = (w, nw) \<longrightarrow> w + nw = length futures)
   \<and> (run_all E links st tw = Inr ((w, nw), st') \<longrightarrow> w + nw = length links)
   \<and> count_results (Inl e # futures) (w, nw) = count_results futures (w, nw + 1)
   \<and> count_results (Inr (link, ''Error'') # futures) (w, nw) = count_results futures (w, nw + 1)"
proof -
  have "w + nw = length futures" if "count_results futures (0, 0) = (w, nw)"
    using count_results_sum[OF that] by simp
  moreover have "w + nw = length links" if "run_all E links st tw = Inr ((w, nw), st')"
  proof -
    from that obtain fs where 1: "submit_all E links st tw = Inr (fs, st')"
        and 2: "count_results fs (0, 0) = (w, nw)"
      by (auto simp: run_all_def split: sum.splits prod.splits)
    from count_results_sum[OF 2] submit_all_length[OF 1] show ?thesis by simp
  qed
  ultimately show ?thesis by simp
qed


text \<open>
  The dispatcher does complete on the links the script gives it: the row lookup in the
  main thread finds a row for every link read from the column, since a task clears no
  row but its own.
\<close>

lemma check_df_cases:
  "check_link_status E link index st tw = (r, st') \<Longrightarrow>
   df st' = df st \<or> df st' = (df st)[index := Str '''']"
proof (induction E link index st tw arbitrary: r st' rule: check_link_status.induct)
  case (1 E link index st tw)
  show ?case
  proof (cases "verified_links st link = Some ''Working''")
    case True
    with 1 show ?thesis by (auto simp: check_cached)
  next
    case False
    obtain q st1 where get: "requests_get E st link = (q, st1)" by force
    note st1 = requests_get_log[OF get]
    show ?thesis
      using "1.prems" "1.IH"[OF False get[symmetric]] check_uncached[OF False get, of index tw]
      by (fastforce simp: st1 Let_def set_verified_def clear_cell_def split: response.splits sum.splits if_splits)
  qed
qed

lemma process_link_df:
  "df (snd (process_link E index link st tw)) = df st
   \<or> df (snd (process_link E index link st tw)) = (df st)[index := Str '''']"
proof -
  obtain r st' where c: "check_link_status E link index st tw = (r, st')" by force
  from check_df_cases[OF c] show ?thesis
    by (auto simp: process_link_def c split: prod.splits)
qed

lemma index_of_Some:
  "x \<in> set xs \<Longrightarrow> \<exists>i. index_of x xs = Some i \<and> i < length xs \<and> xs ! i = x"
  by (induction xs) auto

lemma count_list_update:
  "i < length xs \<Longrightarrow>
   count_list (xs[i := y]) z + (if xs ! i = z then 1 else 0)
     = count_list xs z + (if y = z then 1 else 0)"
proof (induction xs arbitrary: i)
  case Nil
  then show ?case by simp
next
  case (Cons x xs)
  show ?case
  proof (cases i)
    case 0
    then show ?thesis by simp
  next
    case (Suc j)
    with Cons.prems have "j < length xs" by simp
    from Cons.IH[OF this] Suc show ?thesis by (auto split: if_splits)
  qed
qed

definition rows_cover :: "cell list \<Rightarrow> string list \<Rightarrow> bool" where
  \<comment> \<open>every link still to be submitted has a row of its own that holds it\<close>
  "rows_cover rows links = (\<forall>u. count_list links u \<le> count_list rows (Str u))"

lemma submit_all_completes:
  "rows_cover (df st) links \<Longrightarrow> \<exists>futures st'. submit_all E links st tw = Inr (futures, st')"
proof (induction links arbitrary: st)
  case Nil
  then show ?case by simp
next
  case (Cons link links)
  from Cons.prems have "count_list (df st) (Str link) \<ge> 1"
    unfolding rows_cover_def by (metis count_list.simps(2) le_add2 le_trans)
  then have "Str link \<in> set (df st)"
    by (metis count_notin not_one_le_zero)
  from index_of_Some[OF this] obtain i where i: "index_of (Str link) (df st) = Some i"
      "i < length (df st)" "df st ! i = Str link"
    by blast
  obtain res st1 where p: "process_link E i link st tw = (res, st1)"
    by (cases "process_link E i link st tw") auto
  have cover: "rows_cover (df st1) links"
    unfolding rows_cover_def
  proof
    fix u
    from Cons.prems have le: "count_list (link # links) u \<le> count_list (df st) (Str u)"
      by (simp add: rows_cover_def)
    from process_link_df[of E i link st tw] p
    consider "df st1 = df st" | "df st1 = (df st)[i := Str '''']" by auto
    then show "count_list links u \<le> count_list (df st1) (Str u)"
    proof cases
      case 1
      with le show ?thesis by (simp split: if_splits)
    next
      case 2
      from count_list_update[OF i(2), of "Str ''''" "Str u"] i(3) le show ?thesis
        unfolding 2 by (simp split: if_splits)
    qed
  qed
  from Cons.IH[OF cover] obtain futures st' where "submit_all E links st1 tw = Inr (futures, st')"
    by blast
  then show ?case by (simp add: row_of_def i(1) p)
qed

lemma read_links_cover: "rows_cover rows (read_links rows)"
  unfolding rows_cover_def read_links_def
proof
  fix u
  show "count_list (concat (map (\<lambda>c. case c of Str s \<Rightarrow> [s] | NaN \<Rightarrow> []) rows)) u
      \<le> count_list rows (Str u)"
    by (induction rows) (auto split: cell.splits)
qed

lemma dispatcher_completes:
  "\<exists>w nw st'. run_all E (read_links rows) (init_state rows cache) tw = Inr ((w, nw), st')
      \<and> w + nw = length (read_links rows)"
proof -
  have "rows_cover (df (init_state rows cache)) (read_links rows)"
    by (simp add: init_state_def read_links_cover)
  from submit_all_completes[OF this] obtain futures st'
    where s: "submit_all E (read_links rows) (init_state rows cache) tw = Inr (futures, st')"
    by blast
  obtain w nw where c: "count_results futures (0, 0) = (w, nw)" by force
  from count_results_sum[OF c] submit_all_length[OF s] have "w + nw = length (read_links rows)"
    by simp
  with s c show ?thesis by (simp add: run_all_def)
qed

text \<open>
  The end-to-end scenario of the specification: three links, of which the third is
  answered 404 on its page and on its root.
\<close>

lemma scenario_normalized:
  "map_sum id fst (remove_igshid_parameter scenario_env (fst (update_links_to_https scenario_rows)))
     = Inr (map Str scenario_links)"
  by code_simp

lemma end_to_end_scenario:
  "(case script scenario_env scenario_rows Map.empty True of
      Inl e \<Rightarrow> False
    | Inr (counts, st) \<Rightarrow>
        counts = (2, 1) \<and> status_codes st = [(200, 2), (404, 2)]
        \<and> df st = [Str ''https://a.com'', Str ''https://b.com/x'', Str '''']
        \<and> detailed_results st =
            [(''https://a.com'', ''Working'', 200), (''https://b.com/x'', ''Working'', 200),
             (''https://c.com/404page'', ''Not Working'', 404)])"
  by code_simp

lemma scenario_run:
  "map_sum id fst (run_all scenario_env scenario_links (init_state (map Str scenario_links) Map.empty) True)
     = Inr (2, 1)"
  by code_simp

theorem dispatcher_conservation_witness:
  "(\<exists>st'. run_all scenario_env scenario_links (init_state (map Str scenario_links) Map.empty) True
            = Inr ((2, 1), st'))
   \<and> (2::nat) + 1 = length scenario_links"
proof -
  obtain st' where r: "run_all scenario_env scenario_links
      (init_state (map Str scenario_links) Map.empty) True = Inr ((2, 1), st')"
    using scenario_run
    by (cases "run_all scenario_env scenario_links (init_state (map Str scenario_links) Map.empty) True")
      auto
  have "(2::nat) + 1 = length scenario_links"
    using r dispatcher_conservation[where w = 2 and nw = 1 and E = scenario_env
        and links = scenario_links and st' = st' and tw = True
        and st = "init_state (map Str scenario_links) Map.empty"]
    by simp
  with r show ?thesis by blast
qed

subsection \<open>The removal of igshid\<close>

lemma dict_add_keys:
  "fst ` set (dict_add d name v) = insert name (fst ` set d)"
  by (induction d name v rule: dict_add.induct) auto

lemma dict_add_distinct:
  "distinct (map fst d) \<Longrightarrow> distinct (map fst (dict_add d name v))"
  by (induction d name v rule: dict_add.induct) (auto simp: dict_add_keys)

lemma extend_absent:
  "name \<notin> fst ` set d \<Longrightarrow> map (\<lambda>(k, vs). (k, if k = name then vs @ [v] else vs)) d = d"
  by (induction d) auto

lemma dict_add_present:
  "name \<in> fst ` set d \<Longrightarrow> distinct (map fst d) \<Longrightarrow>
   dict_add d name v = map (\<lambda>(k, vs). (k, if k = name then vs @ [v] else vs)) d"
proof (induction d)
  case Nil
  then show ?case by simp
next
  case (Cons e d)
  obtain k vs where e: "e = (k, vs)" by (cases e)
  show ?case
  proof (cases "k = name")
    case True
    with Cons.prems have "name \<notin> fst ` set d" by (simp add: e)
    with True show ?thesis by (simp add: e extend_absent)
  next
    case False
    with Cons show ?thesis by (simp add: e)
  qed
qed

lemma dict_add_absent:
  "name \<notin> fst ` set d \<Longrightarrow> dict_add d name v = d @ [(name, [v])]"
  by (induction d name v rule: dict_add.induct) auto

lemma foldl_dict_add:
  "distinct (map fst d) \<Longrightarrow>
   foldl (\<lambda>d (name, v). dict_add d name v) d fs =
     map (\<lambda>(k, vs). (k, vs @ map snd (filter (\<lambda>f. fst f = k) fs))) d
     @ grouped (filter (\<lambda>f. fst f \<notin> fst ` set d) fs)"
proof (induction fs arbitrary: d)
  case Nil
  then show ?case by (simp add: case_prod_unfold)
next
  case (Cons f fs)
  obtain k v where f: "f = (k, v)" by (cases f)
  have dd: "distinct (map fst (dict_add d k v))" using Cons.prems by (rule dict_add_distinct)
  note IH = Cons.IH[OF dd]
  show ?case
  proof (cases "k \<in> fst ` set d")
    case True
    have keys: "fst ` set (dict_add d k v) = fst ` set d"
      using True by (auto simp: dict_add_keys)
    have "foldl (\<lambda>d (name, v). dict_add d name v) d (f # fs)
        = map (\<lambda>(k', vs). (k', vs @ map snd (filter (\<lambda>f. fst f = k') fs))) (dict_add d k v)
          @ grouped (filter (\<lambda>f. fst f \<notin> fst ` set d) fs)"
      by (simp add: f IH keys)
    also have "map (\<lambda>(k', vs). (k', vs @ map snd (filter (\<lambda>f. fst f = k') fs))) (dict_add d k v)
        = map (\<lambda>(k', vs). (k', vs @ map snd (filter (\<lambda>f. fst f = k') (f # fs)))) d"
      by (simp add: dict_add_present[OF True Cons.prems] f case_prod_unfold)
    also have "filter (\<lambda>f. fst f \<notin> fst ` set d) fs = filter (\<lambda>f. fst f \<notin> fst ` set d) (f # fs)"
      using True by (simp add: f)
    finally show ?thesis .
  next
    case False
    have 1: "filter (\<lambda>f. fst f = k) (filter (\<lambda>f. fst f \<notin> fst ` set d) fs)
        = filter (\<lambda>f. fst f = k) fs"
      using False by (auto intro: filter_cong)
    have da: "dict_add d k v = d @ [(k, [v])]" by (rule dict_add_absent[OF False])
    have 2: "filter (\<lambda>f. fst f \<noteq> k) (filter (\<lambda>f. fst f \<notin> fst ` set d) fs)
        = filter (\<lambda>f. fst f \<notin> fst ` set (d @ [(k, [v])])) fs"
      by (auto intro: filter_cong)
    have 3: "map (\<lambda>(k', vs). (k', vs @ map snd (filter (\<lambda>f. fst f = k') (f # fs)))) d
        = map (\<lambda>(k', vs). (k', vs @ map snd (filter (\<lambda>f. fst f = k') fs))) d"
      using False by (auto simp: f case_prod_unfold)
    have "foldl (\<lambda>d (name, v). dict_add d name v) d (f # fs)
        = foldl (\<lambda>d (name, v). dict_add d name v) (d @ [(k, [v])]) fs"
      by (simp add: f da)
    also have "\<dots> = map (\<lambda>(k', vs). (k', vs @ map snd (filter (\<lambda>f. fst f = k') fs))) (d @ [(k, [v])])
          @ grouped (filter (\<lambda>f. fst f \<notin> fst ` set (d @ [(k, [v])])) fs)"
      using IH unfolding da .
    also have "\<dots> = map (\<lambda>(k', vs). (k', vs @ map snd (filter (\<lambda>f. fst f = k') fs))) d
          @ grouped (f # filter (\<lambda>f. fst f \<notin> fst ` set d) fs)"
    proof -
      have "filter (\<lambda>x. fst x \<notin> fst ` set d \<and> fst x = k) fs = filter (\<lambda>f. fst f = k) fs"
        using False by (auto intro: filter_cong)
      then show ?thesis unfolding 2[symmetric] by (simp add: f)
    qed
    also have "f # filter (\<lambda>f. fst f \<notin> fst ` set d) fs = filter (\<lambda>f. fst f \<notin> fst ` set d) (f # fs)"
      using False by (simp add: f)
    finally show ?thesis by (simp only: 3)
  qed
qed

lemma parse_qs_grouped: "parse_qs qs = grouped (parse_qsl qs)"
  using foldl_dict_add[of "[]" "parse_qsl qs"] by (simp add: parse_qs_def)

lemma dict_del_grouped:
  "dict_del (grouped fs) key = grouped (filter (\<lambda>f. fst f \<noteq> key) fs)"
proof (induction fs rule: grouped.induct)
  case 1
  then show ?case by (simp add: dict_del_def)
next
  case (2 k v fs)
  have c: "filter (\<lambda>f. fst f \<noteq> key) (filter (\<lambda>f. fst f \<noteq> k) fs)
      = filter (\<lambda>f. fst f \<noteq> k) (filter (\<lambda>f. fst f \<noteq> key) fs)"
    by (auto intro: filter_cong)
  show ?case
  proof (cases "k = key")
    case True
    with 2 show ?thesis by (simp add: dict_del_def)
  next
    case False
    then have "filter (\<lambda>f. fst f = k) (filter (\<lambda>f. fst f \<noteq> key) fs) = filter (\<lambda>f. fst f = k) fs"
      by (auto intro: filter_cong)
    with False 2 c show ?thesis by (simp add: dict_del_def)
  qed
qed

lemma grouped_distinct:
  "distinct (map fst fs) \<Longrightarrow> grouped fs = map (\<lambda>f. (fst f, [snd f])) fs"
proof (induction fs)
  case Nil
  then show ?case by simp
next
  case (Cons f fs)
  obtain k v where f: "f = (k, v)" by (cases f)
  from Cons.prems have d: "distinct (map fst fs)" by simp
  from Cons.prems have fl: "filter (\<lambda>f. fst f = k) fs = []" "filter (\<lambda>f. fst f \<noteq> k) fs = fs"
    by (auto simp: f filter_empty_conv filter_id_conv)
  show ?case by (simp add: f fl Cons.IH[OF d])
qed

lemma urlencode_singletons:
  "urlencode (map (\<lambda>f. (fst f, [snd f])) fs) = join ''&'' (map encode_field fs)"
  by (simp add: urlencode_def encode_field_def[abs_def] comp_def case_prod_unfold)

lemma parse_qsl_fields: "no_blank_value qs \<Longrightarrow> parse_qsl qs = query_fields qs"
proof (cases "qs = []")
  case True
  then show ?thesis by (simp add: parse_qsl_def query_fields_def)
next
  case False
  assume "no_blank_value qs"
  then have "filter (\<lambda>nv. nv \<noteq> [] \<and> snd (partition_eq nv) \<noteq> []) (split qs (CHR ''&''))
           = filter (\<lambda>nv. nv \<noteq> []) (split qs (CHR ''&''))"
    unfolding no_blank_value_def list_all_iff by (intro filter_cong) auto
  with False show ?thesis by (simp add: parse_qsl_def query_fields_def)
qed

lemma grouped_keys: "fst ` set (grouped fs) = fst ` set fs"
  by (induction fs rule: grouped.induct) auto

text \<open>
  Claim C8, as amended. Take a link that \<open>urlparse\<close> accepts, whose query has a
  parameter named \<open>igshid\<close> and in which every parameter is written with a non-empty
  value. The removal rebuilds the link from its parsed components with a new query: the
  parameters of the old one, names and values decoded, without those named \<open>igshid\<close>,
  grouped by name (each name once, in the order of its first occurrence, with all its
  values in their order) and encoded again. When the remaining names are distinct, that
  is the remaining parameters in their original order.
\<close>

theorem igshid_removal_regroups:
  assumes "urlparse E link = Inr p"
    and "no_blank_value (query p)"
    and "''igshid'' \<in> fst ` set (query_fields (query p))"
  shows "igshid_link E link =
           Inr (urlunparse (p\<lparr>query := urlencode (grouped
                  (filter (\<lambda>f. fst f \<noteq> ''igshid'') (query_fields (query p))))\<rparr>))
       \<and> (distinct (map fst (filter (\<lambda>f. fst f \<noteq> ''igshid'') (query_fields (query p)))) \<longrightarrow>
           igshid_link E link =
             Inr (urlunparse (p\<lparr>query := join ''&'' (map encode_field
                    (filter (\<lambda>f. fst f \<noteq> ''igshid'') (query_fields (query p))))\<rparr>)))"
proof -
  note f = parse_qsl_fields[OF assms(2)]
  from assms(3) have h: "dict_has (parse_qs (query p)) ''igshid''"
    by (simp add: dict_has_def parse_qs_grouped f grouped_keys)
  have 1: "igshid_link E link =
      Inr (urlunparse (p\<lparr>query := urlencode (grouped
             (filter (\<lambda>f. fst f \<noteq> ''igshid'') (query_fields (query p))))\<rparr>))"
    using assms(1) h
    by (simp add: igshid_link_def Let_def dict_del_grouped[symmetric] parse_qs_grouped f)
  show ?thesis
    using 1 by (simp add: grouped_distinct urlencode_singletons)
qed

lemma example_fields:
  "urlparse E ''https://ex.com/a?igshid=123&b=2'' = Inr example_parse"
  "no_blank_value (query example_parse)"
  "''igshid'' \<in> fst ` set (query_fields (query example_parse))"
  "distinct (map fst (filter (\<lambda>f. fst f \<noteq> ''igshid'') (query_fields (query example_parse))))"
  "urlunparse (example_parse\<lparr>query := join ''&'' (map encode_field
      (filter (\<lambda>f. fst f \<noteq> ''igshid'') (query_fields (query example_parse))))\<rparr>)
    = ''https://ex.com/a?b=2''"
  by code_simp+

theorem igshid_removal_regroups_witness:
  "igshid_link dead_env ''https://ex.com/a?igshid=123&b=2'' = Inr ''https://ex.com/a?b=2''"
proof -
  note r = igshid_removal_regroups[OF example_fields(1,2,3), of dead_env]
  from r[THEN conjunct2, THEN mp, OF example_fields(4)]
  show ?thesis by (simp only: example_fields(5))
qed

text \<open>
  A query in which a parameter is written with an empty value is outside that
  statement. There \<open>parse_qs\<close> does not read the parameter: an \<open>igshid\<close> written so is
  not found, and the link stays as it is; another parameter written so is not in the
  dictionary from which the new query is written. An escape that is not well-formed UTF-8
  is decoded to U+FFFD and encoded as such.
\<close>

lemma blank_igshid_kept:
  "igshid_link E ''https://a.com/?igshid=&b=2'' = Inr ''https://a.com/?igshid=&b=2''"
  by code_simp

lemma blank_field_not_read:
  "igshid_link E ''https://a.com/?igshid=1&flag&b=2'' = Inr ''https://a.com/?b=2''"
  by code_simp

lemma ill_formed_escape_replaced:
  "igshid_link E ''https://a.com/?igshid=1&q=%FF'' = Inr ''https://a.com/?q=%EF%BF%BD''"
  by code_simp

text \<open>
  Claim C8, as stated, fails on a query with a repeated name, whose fields change their
  relative order, and on a field whose text is not what \<open>quote_plus\<close> writes, which is
  written anew.
\<close>

lemma regrouped_example:
  "igshid_link E ''https://a.com/?a=1&b=2&a=3&igshid=4'' = Inr ''https://a.com/?a=1&a=3&b=2''"
  by code_simp

lemma reencoded_example:
  "igshid_link E ''https://a.com/?igshid=1&q=%7Ea%20b'' = Inr ''https://a.com/?q=~a+b''"
  by code_simp

theorem igshid_removal_reorders:
  "\<forall>E. igshid_link E ''https://a.com/?a=1&b=2&a=3&igshid=4'' = Inr ''https://a.com/?a=1&a=3&b=2''
       \<and> igshid_link E ''https://a.com/?igshid=1&q=%7Ea%20b'' = Inr ''https://a.com/?q=~a+b''"
  using regrouped_example reencoded_example by blast

subsection \<open>Normalization twice\<close>

subsubsection \<open>The scheme upgrade\<close>





subsubsection \<open>Encoding and decoding a name\<close>

























subsubsection \<open>The query that urlencode writes\<close>

lemma split_not_Nil: "split s c \<noteq> []"
  by (induction s) (auto split: list.splits)














subsubsection \<open>A link that starts with https://\<close>























subsubsection \<open>The second normalization\<close>








end
